theory Spec2Isabelle
  imports Complex_Main "HOL-Library.Multiset"
begin

section \<open>Data model (types.ts)\<close>

text \<open>
  JavaScript strings are modelled as \<open>string\<close> (a list of characters, one per code
  unit); the development stays within ASCII text. JavaScript numbers that count things
  (sizes, lengths, distances) are \<open>nat\<close>; similarity scores are \<open>real\<close>. An optional
  field (\<open>id?\<close>, \<open>pHash?\<close>, \<open>embedding?\<close>, \<open>tags?\<close>) is an \<open>option\<close>, \<open>None\<close> standing for
  \<open>undefined\<close>.
\<close>

record ImageRecord =
  imgId :: "nat option"
  fileName :: string
  filePath :: string
  fileSize :: nat
  lastModified :: nat
  width :: nat
  height :: nat
  thumbnail :: string
  pHash :: "string option"
  embedding :: "real list option"
  tags :: "string list option"

datatype AppView = Library | Search | Duplicates | Settings

record SearchResult =
  image :: ImageRecord
  similarity :: real

section \<open>Hamming distance (imageProcessing.ts)\<close>

text \<open>
  \<open>h[i]\<close> on a JavaScript string: the character at index \<open>i\<close>, or \<open>undefined\<close> past the
  end.
\<close>

definition charAt :: "string \<Rightarrow> nat \<Rightarrow> char option" where
  "charAt h i = (if i < length h then Some (h ! i) else None)"

text \<open>
  The loop of \<open>hammingDistance\<close>: \<open>for (let i = 0; i < h1.length; i++) if (h1[i] !== h2[i]) dist++\<close>,
  with the loop variables \<open>i\<close> and \<open>dist\<close> (here \<open>d\<close>) as arguments.
\<close>

function hammingLoop :: "string \<Rightarrow> string \<Rightarrow> nat \<Rightarrow> nat \<Rightarrow> nat" where
  "hammingLoop h1 h2 i d =
     (if i < length h1
      then hammingLoop h1 h2 (i + 1) (if charAt h1 i \<noteq> charAt h2 i then d + 1 else d)
      else d)"
  by pat_completeness auto
termination
  by (relation "measure (\<lambda>(h1, h2, i, d). length h1 - i)") auto

declare hammingLoop.simps [simp del]

definition hammingDistance :: "string \<Rightarrow> string \<Rightarrow> nat" where
  "hammingDistance h1 h2 = hammingLoop h1 h2 0 0"

text \<open>
  The positions from \<open>i\<close> on at which the first string differs from the second: what
  the loop counts.
\<close>

definition diffPositions :: "string \<Rightarrow> string \<Rightarrow> nat \<Rightarrow> nat list" where
  "diffPositions h1 h2 i = filter (\<lambda>j. charAt h1 j \<noteq> charAt h2 j) [i..<length h1]"

section \<open>String operations of the JavaScript library\<close>

text \<open>
  \<open>toLowerCase\<close> on ASCII text: the letters \<open>A\<close> to \<open>Z\<close> are replaced by \<open>a\<close> to \<open>z\<close>, every
  other character is kept.
\<close>

definition upperAZ :: string where
  "upperAZ = ''ABCDEFGHIJKLMNOPQRSTUVWXYZ''"

definition lowerAZ :: string where
  "lowerAZ = ''abcdefghijklmnopqrstuvwxyz''"

definition toLowerChar :: "char \<Rightarrow> char" where
  "toLowerChar c = (case map_of (zip upperAZ lowerAZ) c of Some l \<Rightarrow> l | None \<Rightarrow> c)"

definition toLowerCase :: "string \<Rightarrow> string" where
  "toLowerCase s = map toLowerChar s"

text \<open>\<open>s.startsWith(p)\<close> and \<open>s.includes(q)\<close>: \<open>q\<close> occurs in \<open>s\<close> as a contiguous substring.\<close>

definition startsWith :: "string \<Rightarrow> string \<Rightarrow> bool" where
  "startsWith s p = (take (length p) s = p)"

primrec includesStr :: "string \<Rightarrow> string \<Rightarrow> bool" where
  "includesStr [] q = (q = [])"
| "includesStr (c # cs) q = (startsWith (c # cs) q \<or> includesStr cs q)"

text \<open>
  \<open>trim\<close> removes white space at both ends; on ASCII text the white space characters are
  space, tab, line feed, vertical tab, form feed and carriage return.
\<close>

definition isWhiteSpace :: "char \<Rightarrow> bool" where
  "isWhiteSpace c = (c \<in> set [CHR '' '', CHR 0x09, CHR 0x0A, CHR 0x0B, CHR 0x0C, CHR 0x0D])"

definition trim :: "string \<Rightarrow> string" where
  "trim s = rev (dropWhile isWhiteSpace (rev (dropWhile isWhiteSpace s)))"

text \<open>
  \<open>s.split(sep)\<close> for a one-character separator: the pieces between the separators, so
  always at least one piece (\<open>"".split(",")\<close> is \<open>[""]\<close>).
\<close>

fun splitOn :: "char \<Rightarrow> string \<Rightarrow> string list" where
  "splitOn sep [] = [[]]"
| "splitOn sep (c # cs) =
     (if c = sep then [] # splitOn sep cs
      else (case splitOn sep cs of
              [] \<Rightarrow> [[c]]
            | p # ps \<Rightarrow> (c # p) # ps))"

text \<open>\<open>xs[i]\<close> on an array: \<open>undefined\<close> past the end.\<close>

definition arrayAt :: "'a list \<Rightarrow> nat \<Rightarrow> 'a option" where
  "arrayAt xs i = (if i < length xs then Some (xs ! i) else None)"

text \<open>
  \<open>Array.from(new Set(xs))\<close>: a \<open>Set\<close> keeps its elements in insertion order, so the result
  holds the first occurrence of every element of \<open>xs\<close>, in the order of \<open>xs\<close>.
\<close>

definition setAdd :: "'a list \<Rightarrow> 'a \<Rightarrow> 'a list" where
  "setAdd s x = (if x \<in> set s then s else s @ [x])"

definition arrayFromSet :: "'a list \<Rightarrow> 'a list" where
  "arrayFromSet xs = foldl setAdd [] xs"

text \<open>
  \<open>m.set(k, v)\<close> on a \<open>Map\<close>, kept as the list of its entries in insertion order: an existing
  key keeps its place and gets the new value, a new key goes to the end.
\<close>

fun mapSet :: "('k \<times> 'v) list \<Rightarrow> 'k \<Rightarrow> 'v \<Rightarrow> ('k \<times> 'v) list" where
  "mapSet [] k v = [(k, v)]"
| "mapSet ((k', v') # m) k v = (if k' = k then (k, v) # m else (k', v') # mapSet m k v)"

text \<open>
  \<open>xs.sort((a, b) => b.similarity - a.similarity)\<close>: the sort of a JavaScript array is
  stable, and this comparison function puts the higher similarity first.
\<close>

definition sortBySimilarityDesc :: "SearchResult list \<Rightarrow> SearchResult list" where
  "sortBySimilarityDesc rs = sort_key (\<lambda>r. - similarity r) rs"

section \<open>The environment and the state of the application\<close>

text \<open>The result of a call that may throw.\<close>

datatype 'a outcome = Threw | Returned 'a

text \<open>A \<open>File\<close> of the browser, with the properties the application reads.\<close>

record File =
  file_name :: string
  file_type :: string
  file_size :: nat
  file_lastModified :: nat
  file_webkitRelativePath :: string

text \<open>
  What the application does not compute itself:
  \<^item> \<open>mathRandom n\<close> is the value of the \<open>n\<close>-th call of \<open>Math.random()\<close>, a number in
    \<open>[0, 1)\<close>;
  \<^item> \<open>decodeImage f\<close> is what the browser makes of file \<open>f\<close> in \<open>generateThumbnail\<close>: the
    thumbnail data URL with the width and height of the image, or \<open>None\<close> when the image
    does not load and the promise is rejected;
  \<^item> \<open>tagModel n d\<close> is the outcome of the \<open>n\<close>-th \<open>generateContent\<close> request of
    \<open>analyzeImageSemantics\<close>, sent with image data \<open>d\<close>: it throws, or returns a response
    whose \<open>text\<close> may be undefined;
  \<^item> \<open>expandModel n q ts\<close> is the outcome of the \<open>n\<close>-th \<open>generateContent\<close> request of
    \<open>searchByDescription\<close>, sent with query \<open>q\<close> and keywords \<open>ts\<close>, up to and including
    \<open>JSON.parse\<close>: either of them throws, or the text parses to an array of strings.
\<close>

record Env =
  mathRandom :: "nat \<Rightarrow> real"
  decodeImage :: "File \<Rightarrow> (string \<times> nat \<times> nat) option"
  tagModel :: "nat \<Rightarrow> string option \<Rightarrow> string option outcome"
  expandModel :: "nat \<Rightarrow> string \<Rightarrow> string list \<Rightarrow> string list outcome"

text \<open>
  The state: the React state of \<open>App\<close> that the operations read and write, the table
  \<open>db.images\<close> (its records in primary-key order, with the next key of \<open>++id\<close>), and a
  log of what has been asked of the environment: how many random numbers have been
  drawn, and the requests made to the two model services (the image data, and the query
  with the keywords).
\<close>

record World =
  images :: "ImageRecord list"
  searchQuery :: string
  searchResults :: "SearchResult list"
  activeView :: AppView
  errorMessage :: "string option"
  dbImages :: "ImageRecord list"
  dbNextId :: nat
  randomDrawn :: nat
  tagRequests :: "string option list"
  expandRequests :: "(string \<times> string list) list"

definition initialWorld :: World where
  "initialWorld = \<lparr>images = [], searchQuery = [], searchResults = [], activeView = Library,
     errorMessage = None, dbImages = [], dbNextId = 1, randomDrawn = 0, tagRequests = [],
     expandRequests = []\<rparr>"

section \<open>Thumbnails and fingerprints (imageProcessing.ts)\<close>

text \<open>
  \<open>generateThumbnail\<close> resolves to the thumbnail drawn by the browser together with the
  width and height of the decoded image, and rejects when the image does not load.
\<close>

definition generateThumbnail :: "Env \<Rightarrow> File \<Rightarrow> (string \<times> nat \<times> nat) option" where
  "generateThumbnail env file = decodeImage env file"

text \<open>\<open>Math.round\<close> rounds to the nearest integer, a half upwards.\<close>

definition Math_round :: "real \<Rightarrow> int" where
  "Math_round x = \<lfloor>x + 1 / 2\<rfloor>"

text \<open>
  \<open>join('')\<close> writes every element of the array as a decimal number; the elements are
  \<open>Math.round\<close> of a number in \<open>[0, 1)\<close>, so each is written as the one digit \<open>0\<close> or \<open>1\<close>.
\<close>

definition bitDigit :: "int \<Rightarrow> string" where
  "bitDigit k = (if k = 0 then ''0'' else ''1'')"

text \<open>
  \<open>calculatePHash\<close>: \<open>Array.from({ length: 64 }, () => Math.round(Math.random())).join('')\<close>.
  The 64 calls of \<open>Math.random()\<close> are the next 64 values of the environment; the
  argument \<open>thumbnailDataUrl\<close> is not read.
\<close>

definition calculatePHash :: "Env \<Rightarrow> World \<Rightarrow> string \<Rightarrow> string \<times> World" where
  "calculatePHash env w thumbnailDataUrl =
     (concat (map (\<lambda>i. bitDigit (Math_round (mathRandom env (randomDrawn w + i)))) [0..<64]),
      w\<lparr>randomDrawn := randomDrawn w + 64\<rparr>)"

section \<open>The model services (geminiService.ts)\<close>

text \<open>
  \<open>analyzeImageSemantics\<close>: the image data sent is \<open>base64Image.split(',')[1]\<close>; the text
  of the response (\<open>response.text || ""\<close>) is split at the commas and every piece is
  trimmed and lower-cased; when the request throws, the result is the empty array.
\<close>

definition replyText :: "string option \<Rightarrow> string" where
  "replyText response_text = (case response_text of None \<Rightarrow> [] | Some t \<Rightarrow> t)"

definition analyzeImageSemantics :: "Env \<Rightarrow> World \<Rightarrow> string \<Rightarrow> string list \<times> World" where
  "analyzeImageSemantics env w base64Image =
     (let imageData = arrayAt (splitOn CHR '','' base64Image) 1;
          w' = w\<lparr>tagRequests := tagRequests w @ [imageData]\<rparr>
      in case tagModel env (length (tagRequests w)) imageData of
           Threw \<Rightarrow> ([], w')
         | Returned response_text \<Rightarrow>
             (let text = replyText response_text
              in (map (\<lambda>t. toLowerCase (trim t)) (splitOn CHR '','' text), w')))"

text \<open>
  \<open>searchByDescription\<close>: the parsed response, or the empty array when the request or
  the parsing throws.
\<close>

definition searchByDescription :: "Env \<Rightarrow> World \<Rightarrow> string \<Rightarrow> string list \<Rightarrow> string list \<times> World" where
  "searchByDescription env w description imageContext =
     (let w' = w\<lparr>expandRequests := expandRequests w @ [(description, imageContext)]\<rparr>
      in case expandModel env (length (expandRequests w)) description imageContext of
           Threw \<Rightarrow> ([], w')
         | Returned keywords \<Rightarrow> (keywords, w'))"

section \<open>Indexing (App.tsx, processFileList)\<close>

text \<open>\<open>db.images.toArray()\<close> into the state \<open>images\<close>.\<close>

definition loadLibrary :: "World \<Rightarrow> World" where
  "loadLibrary w = w\<lparr>images := dbImages w\<rparr>"

text \<open>\<open>db.images.add(r)\<close>: the record is stored under the next key.\<close>

definition dbAdd :: "World \<Rightarrow> ImageRecord \<Rightarrow> World" where
  "dbAdd w r = w\<lparr>dbImages := dbImages w @ [r\<lparr>imgId := Some (dbNextId w)\<rparr>],
                  dbNextId := dbNextId w + 1\<rparr>"

text \<open>
  \<open>db.images.where('fileName').equals(n).first()\<close>: the record with the lowest key among
  those whose \<open>fileName\<close> is \<open>n\<close>, or \<open>undefined\<close>.
\<close>

definition dbFirstByFileName :: "World \<Rightarrow> string \<Rightarrow> ImageRecord option" where
  "dbFirstByFileName w n = find (\<lambda>r. fileName r = n) (dbImages w)"

text \<open>The test \<open>existing && existing.fileSize === file.size\<close> that skips a file.\<close>

definition alreadyInDb :: "World \<Rightarrow> File \<Rightarrow> bool" where
  "alreadyInDb w file =
     (case dbFirstByFileName w (file_name file) of
        None \<Rightarrow> False
      | Some existing \<Rightarrow> fileSize existing = file_size file)"

text \<open>
  The body of the loop \<open>for (const file of files)\<close>, on the state and the counter
  \<open>processedCount\<close>. A file already in the table is passed over; a rejected thumbnail
  is caught and logged; both count as processed. The operations of the table are taken
  to succeed (a failing one would be caught and counted like a rejected thumbnail); the
  progress shown to the user is not part of the state.
\<close>

definition processFile :: "Env \<Rightarrow> World \<times> nat \<Rightarrow> File \<Rightarrow> World \<times> nat" where
  "processFile env st file =
     (let w = fst st; processedCount = snd st
      in if alreadyInDb w file then (w, processedCount + 1)
         else (case generateThumbnail env file of
                 None \<Rightarrow> (w, processedCount + 1)
               | Some (thumbnail', width', height') \<Rightarrow>
                   (let (pHash', w1) = calculatePHash env w thumbnail';
                        (tags', w2) = (if processedCount < 5
                                       then analyzeImageSemantics env w1 thumbnail'
                                       else ([], w1));
                        w3 = dbAdd w2
                               \<lparr>imgId = None,
                                fileName = file_name file,
                                filePath = (if file_webkitRelativePath file = []
                                            then file_name file
                                            else file_webkitRelativePath file),
                                fileSize = file_size file,
                                lastModified = file_lastModified file,
                                width = width',
                                height = height',
                                thumbnail = thumbnail',
                                pHash = Some pHash',
                                embedding = None,
                                tags = Some tags'\<rparr>
                    in (w3, processedCount + 1))))"

definition processFiles :: "Env \<Rightarrow> World \<times> nat \<Rightarrow> File list \<Rightarrow> World \<times> nat" where
  "processFiles env st files = foldl (processFile env) st files"

text \<open>\<open>Array.from(fileList).filter(f => f.type.startsWith('image/'))\<close>.\<close>

definition imageFiles :: "File list \<Rightarrow> File list" where
  "imageFiles fileList = filter (\<lambda>f. startsWith (file_type f) ''image/'') fileList"

text \<open>
  \<open>processFileList\<close>: without an image file the run ends with a message; otherwise the
  loop runs over the image files with \<open>processedCount\<close> starting at 0, and the library is
  loaded again from the table.
\<close>

definition processFileList :: "Env \<Rightarrow> World \<Rightarrow> File list \<Rightarrow> World" where
  "processFileList env w fileList =
     (let files = imageFiles fileList
      in if length files = 0
         then w\<lparr>errorMessage :=
                   Some ''No supported image files found in the selected folder.''\<rparr>
         else loadLibrary (fst (processFiles env (w\<lparr>errorMessage := None\<rparr>, 0) files)))"

section \<open>Search (App.tsx, handleSearch)\<close>

text \<open>The score of the keyword matching for one image.\<close>

definition lexicalScore :: "string \<Rightarrow> ImageRecord \<Rightarrow> real" where
  "lexicalScore q img =
     (let score0 = 0;
          score1 = (if includesStr (toLowerCase (fileName img)) (toLowerCase q)
                    then score0 + 0.8 else score0);
          score2 = (if (case tags img of
                          None \<Rightarrow> False
                        | Some ts \<Rightarrow> list_ex (\<lambda>t. includesStr (toLowerCase t) (toLowerCase q)) ts)
                    then score1 + 1.0 else score1)
      in score2)"

definition lexicalStep :: "string \<Rightarrow> SearchResult list \<Rightarrow> ImageRecord \<Rightarrow> SearchResult list" where
  "lexicalStep q results img =
     (let score = lexicalScore q img
      in if score > 0 then results @ [\<lparr>image = img, similarity = score\<rparr>] else results)"

definition lexicalPass :: "string \<Rightarrow> ImageRecord list \<Rightarrow> SearchResult list" where
  "lexicalPass q imgs = foldl (lexicalStep q) [] imgs"

text \<open>\<open>i.tags || []\<close>, and the body of the second \<open>forEach\<close>.\<close>

definition tagsOrEmpty :: "ImageRecord \<Rightarrow> string list" where
  "tagsOrEmpty img = (case tags img of None \<Rightarrow> [] | Some ts \<Rightarrow> ts)"

definition tagOverlap :: "string list \<Rightarrow> ImageRecord \<Rightarrow> string list" where
  "tagOverlap relevantKeywords img =
     (case tags img of None \<Rightarrow> [] | Some ts \<Rightarrow> filter (\<lambda>t. t \<in> set relevantKeywords) ts)"

definition semanticStep :: "string list \<Rightarrow> SearchResult list \<Rightarrow> ImageRecord \<Rightarrow> SearchResult list" where
  "semanticStep relevantKeywords results img =
     (let overlap = tagOverlap relevantKeywords img
      in if length overlap > 0
         then results @ [\<lparr>image = img,
                          similarity = real (length overlap) / real (length relevantKeywords)\<rparr>]
         else results)"

definition semanticPass :: "string list \<Rightarrow> ImageRecord list \<Rightarrow> SearchResult list" where
  "semanticPass relevantKeywords imgs = foldl (semanticStep relevantKeywords) [] imgs"

text \<open>\<open>Array.from(new Set(images.flatMap(i => i.tags || [])))\<close>.\<close>

definition allTags :: "ImageRecord list \<Rightarrow> string list" where
  "allTags imgs = arrayFromSet (concat (map tagsOrEmpty imgs))"

text \<open>
  \<open>handleSearch\<close>: a blank query clears the results and shows the library. Otherwise
  the keyword matching runs; only when it finds nothing, and the library has a tag at
  all, the model is asked for the relevant keywords and the second loop pushes its
  results; the results are sorted and the search view is shown.
\<close>

definition handleSearch :: "Env \<Rightarrow> World \<Rightarrow> World" where
  "handleSearch env w =
     (if trim (searchQuery w) = []
      then w\<lparr>searchResults := [], activeView := Library\<rparr>
      else (let results = lexicalPass (searchQuery w) (images w)
            in if length results = 0
               then (if length (allTags (images w)) > 0
                     then (let (relevantKeywords, w') =
                                 searchByDescription env w (searchQuery w) (allTags (images w))
                           in w'\<lparr>searchResults :=
                                   sortBySimilarityDesc
                                     (results @ semanticPass relevantKeywords (images w)),
                                 activeView := Search\<rparr>)
                     else w\<lparr>searchResults := sortBySimilarityDesc results,
                            activeView := Search\<rparr>)
               else w\<lparr>searchResults := sortBySimilarityDesc results, activeView := Search\<rparr>))"

section \<open>Duplicates (App.tsx, findDuplicates)\<close>

text \<open>
  The inner loop over \<open>seenHashes.entries()\<close>: the first entry whose key is at distance
  below 5 from the fingerprint \<open>h\<close> stops the loop; the result is that entry with the
  distance, or \<open>None\<close> when the loop ends with \<open>matched\<close> still false.
\<close>

fun firstMatch :: "(string \<times> ImageRecord) list \<Rightarrow> string \<Rightarrow> (string \<times> ImageRecord \<times> nat) option" where
  "firstMatch [] h = None"
| "firstMatch ((hash, existingImg) # entries) h =
     (let d = hammingDistance hash h
      in if d < 5 then Some (hash, existingImg, d) else firstMatch entries h)"

record DupState =
  dupResults :: "SearchResult list"
  seenHashes :: "(string \<times> ImageRecord) list"

text \<open>
  The body of the outer loop. \<open>!img.pHash\<close> holds for an undefined fingerprint and for
  the empty string.
\<close>

definition dupStep :: "DupState \<Rightarrow> ImageRecord \<Rightarrow> DupState" where
  "dupStep st img =
     (case pHash img of
        None \<Rightarrow> st
      | Some h \<Rightarrow>
          if h = [] then st
          else (case firstMatch (seenHashes st) h of
                  Some (hash, existingImg, d) \<Rightarrow>
                    st\<lparr>dupResults := dupResults st @
                         [\<lparr>image = img, similarity = 1 - real d / 64\<rparr>]\<rparr>
                | None \<Rightarrow> st\<lparr>seenHashes := mapSet (seenHashes st) h img\<rparr>))"

definition dupLoop :: "ImageRecord list \<Rightarrow> DupState" where
  "dupLoop imgs = foldl dupStep \<lparr>dupResults = [], seenHashes = []\<rparr> imgs"

definition findDuplicates :: "World \<Rightarrow> World" where
  "findDuplicates w = w\<lparr>searchResults := dupResults (dupLoop (images w)),
                        activeView := Duplicates\<rparr>"

section \<open>Auxiliary notions and example data\<close>

text \<open>
  A result was matched by the entries \<open>entries\<close>: the inner loop run on the fingerprint of
  its image stops at some entry, and the similarity is computed from the distance found.
\<close>

definition matchedBy :: "(string \<times> ImageRecord) list \<Rightarrow> SearchResult \<Rightarrow> bool" where
  "matchedBy entries r \<longleftrightarrow>
     (\<exists>h k v d. pHash (image r) = Some h \<and> firstMatch entries h = Some (k, v, d)
        \<and> similarity r = 1 - real d / 64)"

text \<open>An image record with the given key, file name, fingerprint and tags.\<close>

definition exampleImage :: "nat \<Rightarrow> string \<Rightarrow> string option \<Rightarrow> string list option \<Rightarrow> ImageRecord" where
  "exampleImage i n h ts =
     \<lparr>imgId = Some i, fileName = n, filePath = n, fileSize = 1000, lastModified = 0,
      width = 100, height = 100, thumbnail = [], pHash = h, embedding = None, tags = ts\<rparr>"

text \<open>The 64-character fingerprint of \<open>n\<close> ones followed by zeros.\<close>

definition hashOnes :: "nat \<Rightarrow> string" where
  "hashOnes n = replicate n CHR ''1'' @ replicate (64 - n) CHR ''0''"

definition dupA :: ImageRecord where
  "dupA = exampleImage 1 ''a.jpg'' (Some (hashOnes 0)) None"

definition dupB :: ImageRecord where
  "dupB = exampleImage 2 ''b.jpg'' (Some (hashOnes 5)) None"

definition dupC :: ImageRecord where
  "dupC = exampleImage 3 ''c.jpg'' (Some (hashOnes 2)) None"

definition dupD :: ImageRecord where
  "dupD = exampleImage 4 ''d.jpg'' None None"

definition wDup :: World where
  "wDup = initialWorld\<lparr>images := [dupA, dupD, dupB, dupC]\<rparr>"

section \<open>The search, in the words of the specification\<close>

text \<open>
  A string contains the query, case-insensitively: the lower-cased query occurs in the
  lower-cased string as a contiguous substring.
\<close>

definition containsCI :: "string \<Rightarrow> string \<Rightarrow> bool" where
  "containsCI s q \<longleftrightarrow> (\<exists>pre post. toLowerCase s = pre @ toLowerCase q @ post)"

text \<open>
  The keywords that \<open>searchByDescription\<close> returns for the query and all tags of the
  library, and the number of an image's tags among some keywords.
\<close>

definition relevantKeywords :: "Env \<Rightarrow> World \<Rightarrow> string list" where
  "relevantKeywords env w =
     (case expandModel env (length (expandRequests w)) (searchQuery w) (allTags (images w)) of
        Threw \<Rightarrow> []
      | Returned keywords \<Rightarrow> keywords)"

definition overlapCount :: "string list \<Rightarrow> ImageRecord \<Rightarrow> nat" where
  "overlapCount rel img = length (filter (\<lambda>t. t \<in> set rel) (tagsOrEmpty img))"

section \<open>Example environment and libraries\<close>

text \<open>
  An environment: the first 64 random numbers are 0 and the later ones 3/4; every image
  decodes; the tagging model answers with six keywords; the expansion model answers
  with the one keyword \<open>dog\<close>.
\<close>

definition exampleEnv :: Env where
  "exampleEnv =
     \<lparr>mathRandom = (\<lambda>n. if n < 64 then 0 else 3 / 4),
      decodeImage = (\<lambda>f. Some (''data:image/jpeg;base64,'' @ file_name f, 800, 600)),
      tagModel = (\<lambda>n d. Returned (Some ''Dog, Tree ,cat,sky,grass,Park'')),
      expandModel = (\<lambda>n q ts. Returned [''dog''])\<rparr>"

definition catA :: ImageRecord where
  "catA = exampleImage 1 ''a.png'' None (Some [''cat''])"

definition catB :: ImageRecord where
  "catB = exampleImage 2 ''cat_photo.jpg'' None (Some [])"

definition catC :: ImageRecord where
  "catC = exampleImage 3 ''dog.png'' None (Some [''tree''])"

definition wCat :: World where
  "wCat = initialWorld\<lparr>images := [catB, catC, catA], searchQuery := ''cat''\<rparr>"

definition dogX :: ImageRecord where
  "dogX = exampleImage 1 ''x.png'' None (Some [''dog''])"

definition dogY :: ImageRecord where
  "dogY = exampleImage 2 ''y.png'' None (Some [''tree''])"

definition dogZ :: ImageRecord where
  "dogZ = exampleImage 3 ''z.png'' None (Some [''tree'', ''dog''])"

definition wDog :: World where
  "wDog = initialWorld\<lparr>images := [dogX, dogY, dogZ], searchQuery := ''puppy''\<rparr>"

definition wNoTags :: World where
  "wNoTags = initialWorld\<lparr>images := [dupD], searchQuery := ''puppy''\<rparr>"

definition catBoth :: ImageRecord where
  "catBoth = exampleImage 4 ''cat.jpg'' None (Some [''cat''])"

definition wBoth :: World where
  "wBoth = initialWorld\<lparr>images := [catBoth], searchQuery := ''cat''\<rparr>"

definition dogDog :: ImageRecord where
  "dogDog = exampleImage 5 ''v.png'' None (Some [''dog'', ''dog''])"

definition wDogDog :: World where
  "wDogDog = initialWorld\<lparr>images := [dogDog], searchQuery := ''puppy''\<rparr>"

text \<open>An environment in which both model services fail.\<close>

definition failingEnv :: Env where
  "failingEnv = exampleEnv\<lparr>tagModel := (\<lambda>n d. Threw), expandModel := (\<lambda>n q ts. Threw)\<rparr>"

text \<open>
  Image files for indexing: two files named \<open>a.jpg\<close> from different folders, of sizes 10
  and 20, and seven files of different names.
\<close>

definition exampleFile :: "string \<Rightarrow> nat \<Rightarrow> string \<Rightarrow> File" where
  "exampleFile n sz path =
     \<lparr>file_name = n, file_type = ''image/jpeg'', file_size = sz, file_lastModified = 0,
      file_webkitRelativePath = path\<rparr>"

definition fileA10 :: File where
  "fileA10 = exampleFile ''a.jpg'' 10 ''x/a.jpg''"

definition fileA20 :: File where
  "fileA20 = exampleFile ''a.jpg'' 20 ''y/a.jpg''"

definition files7 :: "File list" where
  "files7 = [exampleFile ''f1.jpg'' 1 [], exampleFile ''f2.jpg'' 2 [], exampleFile ''f3.jpg'' 3 [],
             exampleFile ''f4.jpg'' 4 [], exampleFile ''f5.jpg'' 5 [], exampleFile ''f6.jpg'' 6 [],
             exampleFile ''f7.jpg'' 7 []]"





section \<open>The table as seen by the skip test\<close>

text \<open>
  The skip test of the indexing loop reads only the file name and the file size of the
  stored records. \<open>keysStep\<close> is the effect of one file on the list of these pairs: nothing
  when the file is skipped or does not decode, one more pair otherwise.
\<close>

definition nameSize :: "ImageRecord \<Rightarrow> string \<times> nat" where
  "nameSize r = (fileName r, fileSize r)"

definition keysStep :: "Env \<Rightarrow> (string \<times> nat) list \<Rightarrow> File \<Rightarrow> (string \<times> nat) list" where
  "keysStep env ks f =
     (if (case find (\<lambda>k. fst k = file_name f) ks of
            None \<Rightarrow> False
          | Some k \<Rightarrow> snd k = file_size f)
         \<or> decodeImage env f = None
      then ks
      else ks @ [(file_name f, file_size f)])"

section \<open>The indexing run, file by file\<close>



section \<open>Properties of the Hamming distance\<close>

lemma hammingLoop_count:
  "hammingLoop h1 h2 i d = d + length (diffPositions h1 h2 i)"
proof (induction h1 h2 i d rule: hammingLoop.induct)
  case (1 h1 h2 i d)
  show ?case
  proof (cases "i < length h1")
    case True
    then have "[i..<length h1] = i # [i + 1..<length h1]"
      by (simp add: upt_rec)
    with True 1 show ?thesis
      by (subst hammingLoop.simps) (simp add: diffPositions_def)
  next
    case False
    then show ?thesis
      by (subst hammingLoop.simps) (simp add: diffPositions_def)
  qed
qed

lemma hammingDistance_count:
  "hammingDistance h1 h2 = length (diffPositions h1 h2 0)"
  by (simp add: hammingDistance_def hammingLoop_count)

lemma hammingDistance_le_length: "hammingDistance h1 h2 \<le> length h1"
proof -
  have "length (diffPositions h1 h2 0) \<le> length [0..<length h1]"
    unfolding diffPositions_def by (rule length_filter_le)
  then show ?thesis by (simp add: hammingDistance_count)
qed

lemma hammingDistance_self: "hammingDistance h h = 0"
  by (simp add: hammingDistance_count diffPositions_def)

lemma hammingDistance_sym_same_length:
  assumes "length h1 = length h2"
  shows "hammingDistance h1 h2 = hammingDistance h2 h1"
proof -
  have "(\<lambda>j. charAt h1 j \<noteq> charAt h2 j) = (\<lambda>j. charAt h2 j \<noteq> charAt h1 j)"
    by auto
  with assms show ?thesis
    by (simp add: hammingDistance_count diffPositions_def)
qed

text \<open>
  Claim C6. For all 64-character fingerprints \<open>f1\<close>, \<open>f2\<close>: the distance from \<open>f1\<close> to \<open>f2\<close>
  equals the distance from \<open>f2\<close> to \<open>f1\<close>, it is at most 64 (and, being a count, at
  least 0), and the distance from a fingerprint to itself is 0.
\<close>

theorem hammingDistance_metric_64:
  assumes "length f1 = 64" and "length f2 = 64"
  shows "hammingDistance f1 f2 = hammingDistance f2 f1
       \<and> 0 \<le> hammingDistance f1 f2 \<and> hammingDistance f1 f2 \<le> 64
       \<and> hammingDistance f1 f1 = 0"
proof -
  have "hammingDistance f1 f2 \<le> 64"
    using hammingDistance_le_length [of f1 f2] assms by simp
  moreover have "hammingDistance f1 f2 = hammingDistance f2 f1"
    using assms by (simp add: hammingDistance_sym_same_length)
  ultimately show ?thesis
    by (simp add: hammingDistance_self)
qed

theorem hammingDistance_metric_64_witness:
  "length (replicate 64 CHR ''0'') = 64 \<and> length (replicate 64 CHR ''1'') = 64
   \<and> hammingDistance (replicate 64 CHR ''0'') (replicate 64 CHR ''1'')
       = hammingDistance (replicate 64 CHR ''1'') (replicate 64 CHR ''0'')
   \<and> 0 \<le> hammingDistance (replicate 64 CHR ''0'') (replicate 64 CHR ''1'')
   \<and> hammingDistance (replicate 64 CHR ''0'') (replicate 64 CHR ''1'') \<le> 64
   \<and> hammingDistance (replicate 64 CHR ''0'') (replicate 64 CHR ''0'') = 0"
  using hammingDistance_metric_64 [of "replicate 64 CHR ''0''" "replicate 64 CHR ''1''"]
  by simp

section \<open>Properties of the duplicates view\<close>

subsection \<open>The inner loop and the map of representatives\<close>

lemma firstMatch_Some:
  "firstMatch entries h = Some (hash, e, d) \<longleftrightarrow>
     (\<exists>pre post. entries = pre @ (hash, e) # post
        \<and> (\<forall>(k, v) \<in> set pre. \<not> hammingDistance k h < 5)
        \<and> d = hammingDistance hash h \<and> d < 5)"
proof (induction entries)
  case Nil
  then show ?case by simp
next
  case (Cons a entries)
  obtain k v where a: "a = (k, v)" by (cases a)
  show ?case
  proof (cases "hammingDistance k h < 5")
    case True
    show ?thesis
    proof
      assume "firstMatch (a # entries) h = Some (hash, e, d)"
      with True a have "hash = k" "e = v" "d = hammingDistance k h"
        by (auto simp: Let_def)
      with True a show "\<exists>pre post. a # entries = pre @ (hash, e) # post
        \<and> (\<forall>(k, v) \<in> set pre. \<not> hammingDistance k h < 5)
        \<and> d = hammingDistance hash h \<and> d < 5"
        by (intro exI [of _ "[]"] exI [of _ entries]) auto
    next
      assume "\<exists>pre post. a # entries = pre @ (hash, e) # post
        \<and> (\<forall>(k, v) \<in> set pre. \<not> hammingDistance k h < 5)
        \<and> d = hammingDistance hash h \<and> d < 5"
      then obtain pre post where p: "a # entries = pre @ (hash, e) # post"
        "\<forall>(k, v) \<in> set pre. \<not> hammingDistance k h < 5" "d = hammingDistance hash h" "d < 5"
        by blast
      have "pre = []"
      proof (cases pre)
        case Nil then show ?thesis .
      next
        case (Cons b pre')
        with p(1) a have "b = (k, v)" by simp
        with Cons p(2) True show ?thesis by auto
      qed
      with p a True show "firstMatch (a # entries) h = Some (hash, e, d)"
        by (simp add: Let_def)
    qed
  next
    case False
    have "firstMatch (a # entries) h = firstMatch entries h"
      using False a by (simp add: Let_def)
    moreover have "(\<exists>pre post. a # entries = pre @ (hash, e) # post
        \<and> (\<forall>(k, v) \<in> set pre. \<not> hammingDistance k h < 5)
        \<and> d = hammingDistance hash h \<and> d < 5) \<longleftrightarrow>
      (\<exists>pre post. entries = pre @ (hash, e) # post
        \<and> (\<forall>(k, v) \<in> set pre. \<not> hammingDistance k h < 5)
        \<and> d = hammingDistance hash h \<and> d < 5)" (is "?L \<longleftrightarrow> ?R")
    proof
      assume ?L
      then obtain pre post where p: "a # entries = pre @ (hash, e) # post"
        "\<forall>(k, v) \<in> set pre. \<not> hammingDistance k h < 5" "d = hammingDistance hash h" "d < 5"
        by blast
      show ?R
      proof (cases pre)
        case Nil
        with p a False show ?thesis by simp
      next
        case (Cons b pre')
        with p show ?thesis by (intro exI [of _ pre'] exI [of _ post]) simp
      qed
    next
      assume ?R
      then obtain pre post where p: "entries = pre @ (hash, e) # post"
        "\<forall>(k, v) \<in> set pre. \<not> hammingDistance k h < 5" "d = hammingDistance hash h" "d < 5"
        by blast
      with a False show ?L
        by (intro exI [of _ "a # pre"] exI [of _ post]) simp
    qed
    ultimately show ?thesis using Cons.IH by simp
  qed
qed

lemma firstMatch_None:
  "firstMatch entries h = None \<longleftrightarrow> (\<forall>(k, v) \<in> set entries. \<not> hammingDistance k h < 5)"
proof (induction entries)
  case Nil
  then show ?case by simp
next
  case (Cons a entries)
  obtain k v where a: "a = (k, v)" by (cases a)
  show ?case
    using Cons.IH by (cases "hammingDistance k h < 5") (simp_all add: a Let_def)
qed

lemma mapSet_fresh: "k \<notin> fst ` set m \<Longrightarrow> mapSet m k v = m @ [(k, v)]"
  by (induction m) auto


lemma firstMatch_not_key:
  assumes "firstMatch entries h = None"
  shows "h \<notin> fst ` set entries"
proof
  assume "h \<in> fst ` set entries"
  then obtain v where "(h, v) \<in> set entries" by auto
  with assms have "\<not> hammingDistance h h < 5"
    by (auto simp: firstMatch_None)
  then show False by (simp add: hammingDistance_self)
qed

lemma firstMatch_append:
  "firstMatch entries h = Some x \<Longrightarrow> firstMatch (entries @ later) h = Some x"
proof (induction entries)
  case Nil
  then show ?case by simp
next
  case (Cons a entries)
  obtain k v where a: "a = (k, v)" by (cases a)
  from Cons show ?case
    by (cases "hammingDistance k h < 5") (simp_all add: a Let_def)
qed

subsection \<open>The three cases of the loop body\<close>

lemma dupStep_no_hash:
  "pHash img = None \<or> pHash img = Some [] \<Longrightarrow> dupStep st img = st"
  by (auto simp: dupStep_def)

lemma dupStep_new_group:
  assumes "pHash img = Some h" "h \<noteq> []" "firstMatch (seenHashes st) h = None"
  shows "dupStep st img = st\<lparr>seenHashes := seenHashes st @ [(h, img)]\<rparr>"
  using assms firstMatch_not_key [OF assms(3)]
  by (simp add: dupStep_def mapSet_fresh)

lemma dupStep_match:
  assumes "pHash img = Some h" "h \<noteq> []" "firstMatch (seenHashes st) h = Some (k, v, d)"
  shows "dupStep st img =
           st\<lparr>dupResults := dupResults st @ [\<lparr>image = img, similarity = 1 - real d / 64\<rparr>]\<rparr>"
  using assms by (simp add: dupStep_def)

lemma dupLoop_snoc: "dupLoop (imgs @ [img]) = dupStep (dupLoop imgs) img"
  by (simp add: dupLoop_def)

lemma matchedBy_append: "matchedBy entries r \<Longrightarrow> matchedBy (entries @ later) r"
  unfolding matchedBy_def by (blast intro: firstMatch_append)

lemma dupLoop_invariant:
  "(\<forall>r \<in> set (dupResults (dupLoop imgs)).
       image r \<in> set imgs \<and> matchedBy (seenHashes (dupLoop imgs)) r)
   \<and> snd ` set (seenHashes (dupLoop imgs)) \<subseteq> set imgs
   \<and> (distinct imgs \<longrightarrow>
        image ` set (dupResults (dupLoop imgs)) \<inter> snd ` set (seenHashes (dupLoop imgs)) = {})"
proof (induction imgs rule: rev_induct)
  case Nil
  then show ?case by (simp add: dupLoop_def)
next
  case (snoc img imgs)
  let ?st = "dupLoop imgs"
  consider (skip) "pHash img = None \<or> pHash img = Some []"
    | (new) h where "pHash img = Some h" "h \<noteq> []" "firstMatch (seenHashes ?st) h = None"
    | (match) h k v d where "pHash img = Some h" "h \<noteq> []"
        "firstMatch (seenHashes ?st) h = Some (k, v, d)"
  proof (cases "pHash img")
    case None
    then show ?thesis using skip by simp
  next
    case (Some h)
    show ?thesis
    proof (cases "h = []")
      case True
      with Some show ?thesis using skip by simp
    next
      case False
      show ?thesis
      proof (cases "firstMatch (seenHashes ?st) h")
        case None
        with Some False show ?thesis using new by blast
      next
        case (Some x)
        obtain k v d where "x = (k, v, d)" by (cases x)
        with Some \<open>pHash img = Some h\<close> False show ?thesis using match by blast
      qed
    qed
  qed
  then show ?case
  proof cases
    case skip
    then have "dupLoop (imgs @ [img]) = ?st"
      by (simp add: dupLoop_snoc dupStep_no_hash)
    with snoc.IH show ?thesis by auto
  next
    case new
    then have eq: "dupLoop (imgs @ [img]) = ?st\<lparr>seenHashes := seenHashes ?st @ [(h, img)]\<rparr>"
      by (simp add: dupLoop_snoc dupStep_new_group)
    have "\<forall>r \<in> set (dupResults ?st). matchedBy (seenHashes ?st @ [(h, img)]) r"
      using snoc.IH by (blast intro: matchedBy_append)
    moreover have "distinct (imgs @ [img]) \<longrightarrow>
        image ` set (dupResults ?st) \<inter> snd ` set (seenHashes ?st @ [(h, img)]) = {}"
      using snoc.IH by auto
    ultimately show ?thesis
      using snoc.IH by (auto simp: eq)
  next
    case match
    let ?r = "\<lparr>image = img, similarity = 1 - real d / 64\<rparr>"
    from match have eq: "dupLoop (imgs @ [img]) = ?st\<lparr>dupResults := dupResults ?st @ [?r]\<rparr>"
      by (simp add: dupLoop_snoc dupStep_match)
    have "matchedBy (seenHashes ?st) ?r"
      using match by (auto simp: matchedBy_def)
    moreover have "distinct (imgs @ [img]) \<longrightarrow>
        image ` set (dupResults ?st @ [?r]) \<inter> snd ` set (seenHashes ?st) = {}"
      using snoc.IH by auto
    ultimately show ?thesis
      using snoc.IH by (auto simp: eq)
  qed
qed


subsection \<open>The example library\<close>

lemma hashOnes_distances:
  "hammingDistance (hashOnes 0) (hashOnes 5) = 5"
  "hammingDistance (hashOnes 0) (hashOnes 2) = 2"
  "hammingDistance (hashOnes 5) (hashOnes 2) = 3"
  by code_simp+

lemma hashOnes_not_empty: "hashOnes 0 \<noteq> []" "hashOnes 2 \<noteq> []" "hashOnes 5 \<noteq> []"
  by (simp_all add: hashOnes_def)

lemma hashOnes_distinct: "hashOnes 0 \<noteq> hashOnes 5" "hashOnes 0 \<noteq> hashOnes 2"
  by code_simp+

text \<open>
  Claim C10. Every result of the duplicates view was matched against a representative:
  the first entry \<open>(k, v)\<close> of \<open>seenHashes\<close> whose key is at distance \<open>d < 5\<close> from the
  fingerprint of the result's image, so \<open>0 \<le> d \<le> 4\<close>; its similarity is \<open>1 - d / 64\<close>, hence
  above \<open>59 / 64\<close>; and, the images of the library being distinct records, no
  representative is the image of a result.
\<close>

theorem findDuplicates_similarity:
  assumes "distinct (images w)" and "r \<in> set (searchResults (findDuplicates w))"
  shows "(\<exists>h k v. pHash (image r) = Some h
            \<and> (k, v) \<in> set (seenHashes (dupLoop (images w)))
            \<and> firstMatch (seenHashes (dupLoop (images w))) h = Some (k, v, hammingDistance k h)
            \<and> hammingDistance k h \<le> 4
            \<and> similarity r = 1 - real (hammingDistance k h) / 64)
       \<and> similarity r > 59 / 64
       \<and> image r \<notin> snd ` set (seenHashes (dupLoop (images w)))"
proof -
  let ?st = "dupLoop (images w)"
  from assms(2) have r: "r \<in> set (dupResults ?st)"
    by (simp add: findDuplicates_def)
  with dupLoop_invariant [of "images w"] have "matchedBy (seenHashes ?st) r"
    by blast
  then obtain h k v d where m: "pHash (image r) = Some h"
      "firstMatch (seenHashes ?st) h = Some (k, v, d)" "similarity r = 1 - real d / 64"
    unfolding matchedBy_def by blast
  from m(2) have d: "d = hammingDistance k h" "d < 5" and mem: "(k, v) \<in> set (seenHashes ?st)"
    by (auto simp: firstMatch_Some)
  have first: "\<exists>h k v. pHash (image r) = Some h
            \<and> (k, v) \<in> set (seenHashes ?st)
            \<and> firstMatch (seenHashes ?st) h = Some (k, v, hammingDistance k h)
            \<and> hammingDistance k h \<le> 4
            \<and> similarity r = 1 - real (hammingDistance k h) / 64"
    using m d mem by (intro exI [of _ h] exI [of _ k] exI [of _ v]) simp
  have "real d \<le> 4" using d(2) by simp
  then have second: "similarity r > 59 / 64"
    using m(3) by simp
  have third: "image r \<notin> snd ` set (seenHashes ?st)"
    using dupLoop_invariant [of "images w"] assms(1) r by blast
  from first second third show ?thesis by blast
qed

lemma dupLoop_example:
  "dupLoop [dupA, dupD, dupB, dupC] =
     \<lparr>dupResults = [\<lparr>image = dupC, similarity = 1 - 2 / 64\<rparr>],
      seenHashes = [(hashOnes 0, dupA), (hashOnes 5, dupB)]\<rparr>"
  by (simp add: dupLoop_def dupStep_def dupA_def dupB_def dupC_def dupD_def exampleImage_def
      hashOnes_distances hashOnes_not_empty hashOnes_distinct)


lemma example_images_distinct: "distinct [dupA, dupD, dupB, dupC]"
  by (simp add: dupA_def dupB_def dupC_def dupD_def exampleImage_def)

theorem findDuplicates_similarity_witness:
  "distinct (images wDup)
   \<and> \<lparr>image = dupC, similarity = 1 - 2 / 64\<rparr> \<in> set (searchResults (findDuplicates wDup))
   \<and> (\<exists>h k v. pHash (image \<lparr>image = dupC, similarity = 1 - 2 / 64\<rparr>) = Some h
            \<and> (k, v) \<in> set (seenHashes (dupLoop (images wDup)))
            \<and> firstMatch (seenHashes (dupLoop (images wDup))) h = Some (k, v, hammingDistance k h)
            \<and> hammingDistance k h \<le> 4
            \<and> similarity \<lparr>image = dupC, similarity = 1 - 2 / 64\<rparr> = 1 - real (hammingDistance k h) / 64)
   \<and> similarity \<lparr>image = dupC, similarity = 1 - 2 / 64\<rparr> > 59 / 64
   \<and> image \<lparr>image = dupC, similarity = 1 - 2 / 64\<rparr> \<notin> snd ` set (seenHashes (dupLoop (images wDup)))"
proof -
  have d: "distinct (images wDup)"
    using example_images_distinct by (simp add: wDup_def initialWorld_def)
  have r: "\<lparr>image = dupC, similarity = 1 - 2 / 64\<rparr> \<in> set (searchResults (findDuplicates wDup))"
    by (simp add: findDuplicates_def wDup_def initialWorld_def dupLoop_example)
  from findDuplicates_similarity [OF d r] d r show ?thesis by blast
qed

text \<open>
  Claim C3, as the code has it. An image without a fingerprint (undefined or empty)
  leaves the state of the loop as it is. An image with fingerprint \<open>h\<close> joins a group, that
  is, is appended to the results and founds no group, exactly when some representative's
  fingerprint is at distance below 5 (at most 4) from \<open>h\<close>; it is then scored against the
  earliest such entry of \<open>seenHashes\<close>; otherwise it founds a new group at the end of
  \<open>seenHashes\<close>.
\<close>

theorem dupStep_joins_first_below_5:
  "(pHash img = None \<or> pHash img = Some [] \<longrightarrow> dupStep st img = st)
   \<and> (pHash img = Some h \<and> h \<noteq> [] \<longrightarrow>
        ((\<exists>s. dupStep st img = st\<lparr>dupResults := dupResults st @ [\<lparr>image = img, similarity = s\<rparr>]\<rparr>)
           \<longleftrightarrow> (\<exists>(k, v) \<in> set (seenHashes st). hammingDistance k h < 5))
      \<and> ((\<exists>(k, v) \<in> set (seenHashes st). hammingDistance k h < 5) \<longrightarrow>
           (\<exists>pre k v post. seenHashes st = pre @ (k, v) # post
              \<and> (\<forall>(k', v') \<in> set pre. \<not> hammingDistance k' h < 5)
              \<and> hammingDistance k h < 5
              \<and> dupStep st img = st\<lparr>dupResults := dupResults st @
                    [\<lparr>image = img, similarity = 1 - real (hammingDistance k h) / 64\<rparr>]\<rparr>))
      \<and> (\<not> (\<exists>(k, v) \<in> set (seenHashes st). hammingDistance k h < 5) \<longrightarrow>
           dupStep st img = st\<lparr>seenHashes := seenHashes st @ [(h, img)]\<rparr>))"
proof (intro conjI impI)
  assume "pHash img = None \<or> pHash img = Some []"
  then show "dupStep st img = st" by (rule dupStep_no_hash)
next
  assume a: "pHash img = Some h \<and> h \<noteq> []"
  show "(\<exists>s. dupStep st img = st\<lparr>dupResults := dupResults st @ [\<lparr>image = img, similarity = s\<rparr>]\<rparr>)
           \<longleftrightarrow> (\<exists>(k, v) \<in> set (seenHashes st). hammingDistance k h < 5)"
  proof (cases "firstMatch (seenHashes st) h")
    case None
    with a have "dupStep st img = st\<lparr>seenHashes := seenHashes st @ [(h, img)]\<rparr>"
      by (simp add: dupStep_new_group)
    then have "\<And>s. dupResults (dupStep st img) \<noteq> dupResults st @ [\<lparr>image = img, similarity = s\<rparr>]"
      by simp
    then have "\<not> (\<exists>s. dupStep st img = st\<lparr>dupResults := dupResults st @ [\<lparr>image = img, similarity = s\<rparr>]\<rparr>)"
      by (metis DupState.select_convs(1) DupState.surjective DupState.update_convs(1))
    moreover from None have "\<not> (\<exists>(k, v) \<in> set (seenHashes st). hammingDistance k h < 5)"
      by (auto simp: firstMatch_None)
    ultimately show ?thesis by blast
  next
    case (Some x)
    obtain k v d where x: "x = (k, v, d)" by (cases x)
    with Some a have "dupStep st img =
        st\<lparr>dupResults := dupResults st @ [\<lparr>image = img, similarity = 1 - real d / 64\<rparr>]\<rparr>"
      by (simp add: dupStep_match)
    moreover from Some x have "(k, v) \<in> set (seenHashes st)" "hammingDistance k h < 5"
      by (auto simp: firstMatch_Some)
    ultimately show ?thesis by blast
  qed
next
  assume a: "pHash img = Some h \<and> h \<noteq> []"
    and ex: "\<exists>(k, v) \<in> set (seenHashes st). hammingDistance k h < 5"
  then have "firstMatch (seenHashes st) h \<noteq> None"
    by (auto simp: firstMatch_None)
  then obtain k v d where m: "firstMatch (seenHashes st) h = Some (k, v, d)"
    by (cases "firstMatch (seenHashes st) h") auto
  then obtain pre post where p: "seenHashes st = pre @ (k, v) # post"
      "\<forall>(k', v') \<in> set pre. \<not> hammingDistance k' h < 5" "d = hammingDistance k h" "d < 5"
    unfolding firstMatch_Some by blast
  from a m have "dupStep st img =
      st\<lparr>dupResults := dupResults st @ [\<lparr>image = img, similarity = 1 - real d / 64\<rparr>]\<rparr>"
    by (simp add: dupStep_match)
  with p show "\<exists>pre k v post. seenHashes st = pre @ (k, v) # post
              \<and> (\<forall>(k', v') \<in> set pre. \<not> hammingDistance k' h < 5)
              \<and> hammingDistance k h < 5
              \<and> dupStep st img = st\<lparr>dupResults := dupResults st @
                    [\<lparr>image = img, similarity = 1 - real (hammingDistance k h) / 64\<rparr>]\<rparr>"
    by (intro exI [of _ pre] exI [of _ k] exI [of _ v] exI [of _ post]) simp
next
  assume a: "pHash img = Some h \<and> h \<noteq> []"
    and nex: "\<not> (\<exists>(k, v) \<in> set (seenHashes st). hammingDistance k h < 5)"
  then have "firstMatch (seenHashes st) h = None"
    by (auto simp: firstMatch_None)
  with a show "dupStep st img = st\<lparr>seenHashes := seenHashes st @ [(h, img)]\<rparr>"
    by (simp add: dupStep_new_group)
qed

lemma dupLoop_example_A: "dupLoop [dupA] = \<lparr>dupResults = [], seenHashes = [(hashOnes 0, dupA)]\<rparr>"
  by (simp add: dupLoop_def dupStep_def dupA_def exampleImage_def hashOnes_not_empty)

lemma dupLoop_example_AB:
  "dupLoop [dupA, dupB] =
     \<lparr>dupResults = [], seenHashes = [(hashOnes 0, dupA), (hashOnes 5, dupB)]\<rparr>"
  by (simp add: dupLoop_def dupStep_def dupA_def dupB_def exampleImage_def
      hashOnes_distances hashOnes_not_empty hashOnes_distinct)

text \<open>
  Claim C3 as stated fails at distance exactly 5: \<open>dupB\<close> is within distance \<open>\<le> 5\<close> of the
  representative \<open>dupA\<close> and yet founds a group of its own; the duplicates view is empty.
\<close>

theorem distance_5_joins_counterexample:
  "pHash dupA = Some (hashOnes 0) \<and> pHash dupB = Some (hashOnes 5)
   \<and> hammingDistance (hashOnes 0) (hashOnes 5) \<le> 5
   \<and> seenHashes (dupLoop [dupA]) = [(hashOnes 0, dupA)]
   \<and> dupStep (dupLoop [dupA]) dupB =
       \<lparr>dupResults = [], seenHashes = [(hashOnes 0, dupA), (hashOnes 5, dupB)]\<rparr>
   \<and> searchResults (findDuplicates (initialWorld\<lparr>images := [dupA, dupB]\<rparr>)) = []"
proof -
  have "dupStep (dupLoop [dupA]) dupB = dupLoop [dupA, dupB]"
    using dupLoop_snoc [of "[dupA]" dupB] by simp
  then show ?thesis
    by (simp add: dupLoop_example_A dupLoop_example_AB findDuplicates_def hashOnes_distances)
       (simp add: dupA_def dupB_def exampleImage_def)
qed


theorem dupStep_joins_first_below_5_witness:
  "pHash dupD = None
   \<and> dupStep (dupLoop [dupA, dupB]) dupD = dupLoop [dupA, dupB]
   \<and> pHash dupC = Some (hashOnes 2) \<and> hashOnes 2 \<noteq> []
   \<and> seenHashes (dupLoop [dupA, dupB]) = [(hashOnes 0, dupA), (hashOnes 5, dupB)]
   \<and> hammingDistance (hashOnes 0) (hashOnes 2) < 5
   \<and> hammingDistance (hashOnes 5) (hashOnes 2) < 5
   \<and> dupStep (dupLoop [dupA, dupB]) dupC =
       (dupLoop [dupA, dupB])\<lparr>dupResults := dupResults (dupLoop [dupA, dupB]) @
          [\<lparr>image = dupC, similarity = 1 - real (hammingDistance (hashOnes 0) (hashOnes 2)) / 64\<rparr>]\<rparr>
   \<and> pHash dupB = Some (hashOnes 5) \<and> hashOnes 5 \<noteq> []
   \<and> seenHashes (dupLoop [dupA]) = [(hashOnes 0, dupA)]
   \<and> \<not> hammingDistance (hashOnes 0) (hashOnes 5) < 5
   \<and> dupStep (dupLoop [dupA]) dupB =
       (dupLoop [dupA])\<lparr>seenHashes := seenHashes (dupLoop [dupA]) @ [(hashOnes 5, dupB)]\<rparr>"
proof -
  let ?st = "dupLoop [dupA, dupB]"
  have hD: "pHash dupD = None" by (simp add: dupD_def exampleImage_def)
  have hC: "pHash dupC = Some (hashOnes 2) \<and> hashOnes 2 \<noteq> []"
    by (simp add: dupC_def exampleImage_def hashOnes_not_empty)
  have hB: "pHash dupB = Some (hashOnes 5) \<and> hashOnes 5 \<noteq> []"
    by (simp add: dupB_def exampleImage_def hashOnes_not_empty)
  have seen: "seenHashes ?st = [(hashOnes 0, dupA), (hashOnes 5, dupB)]"
    by (simp add: dupLoop_example_AB)
  have seenA: "seenHashes (dupLoop [dupA]) = [(hashOnes 0, dupA)]"
    by (simp add: dupLoop_example_A)
  have skip: "dupStep ?st dupD = ?st"
    using dupStep_joins_first_below_5 [where img = dupD and st = ?st] hD by simp
  have ex: "\<exists>(k, v) \<in> set (seenHashes ?st). hammingDistance k (hashOnes 2) < 5"
    by (simp add: seen hashOnes_distances)
  with dupStep_joins_first_below_5 [where img = dupC and h = "hashOnes 2" and st = ?st] hC
  obtain pre k v post where p: "seenHashes ?st = pre @ (k, v) # post"
      "\<forall>(k', v') \<in> set pre. \<not> hammingDistance k' (hashOnes 2) < 5"
      "dupStep ?st dupC = ?st\<lparr>dupResults := dupResults ?st @
          [\<lparr>image = dupC, similarity = 1 - real (hammingDistance k (hashOnes 2)) / 64\<rparr>]\<rparr>"
    by blast
  have "pre = []"
  proof (cases pre)
    case Nil
    then show ?thesis .
  next
    case (Cons x pre')
    with p(1) seen have "x = (hashOnes 0, dupA)" by simp
    with Cons p(2) show ?thesis by (simp add: hashOnes_distances)
  qed
  with p(1) seen have "k = hashOnes 0" by simp
  with p(3) have join: "dupStep ?st dupC = ?st\<lparr>dupResults := dupResults ?st @
      [\<lparr>image = dupC, similarity = 1 - real (hammingDistance (hashOnes 0) (hashOnes 2)) / 64\<rparr>]\<rparr>"
    by simp
  have nex: "\<not> (\<exists>(k, v) \<in> set (seenHashes (dupLoop [dupA])). hammingDistance k (hashOnes 5) < 5)"
    by (simp add: seenA hashOnes_distances)
  with dupStep_joins_first_below_5 [where img = dupB and h = "hashOnes 5" and st = "dupLoop [dupA]"] hB
  have new: "dupStep (dupLoop [dupA]) dupB =
       (dupLoop [dupA])\<lparr>seenHashes := seenHashes (dupLoop [dupA]) @ [(hashOnes 5, dupB)]\<rparr>"
    by blast
  from hD skip hC seen join hB seenA new show ?thesis
    by (simp add: hashOnes_distances)
qed

section \<open>Properties of the search\<close>

subsection \<open>Substrings, scores and the two passes\<close>

lemma startsWith_iff: "startsWith s p \<longleftrightarrow> (\<exists>post. s = p @ post)"
proof
  assume "startsWith s p"
  then have "s = p @ drop (length p) s"
    by (metis append_take_drop_id startsWith_def)
  then show "\<exists>post. s = p @ post" ..
next
  assume "\<exists>post. s = p @ post"
  then show "startsWith s p" by (auto simp: startsWith_def)
qed

lemma includesStr_iff: "includesStr s q \<longleftrightarrow> (\<exists>pre post. s = pre @ q @ post)"
proof (induction s)
  case Nil
  then show ?case by auto
next
  case (Cons c cs)
  show ?case
  proof
    assume "includesStr (c # cs) q"
    then consider "startsWith (c # cs) q" | "includesStr cs q" by auto
    then show "\<exists>pre post. c # cs = pre @ q @ post"
    proof cases
      case 1
      then obtain post where "c # cs = q @ post" by (auto simp: startsWith_iff)
      then have "c # cs = [] @ q @ post" by simp
      then show ?thesis by blast
    next
      case 2
      with Cons.IH obtain pre post where "cs = pre @ q @ post" by blast
      then have "c # cs = (c # pre) @ q @ post" by simp
      then show ?thesis by blast
    qed
  next
    assume "\<exists>pre post. c # cs = pre @ q @ post"
    then obtain pre post where p: "c # cs = pre @ q @ post" by blast
    show "includesStr (c # cs) q"
    proof (cases pre)
      case Nil
      with p have "startsWith (c # cs) q" by (auto simp: startsWith_iff)
      then show ?thesis by simp
    next
      case (Cons a pre')
      with p have "cs = pre' @ q @ post" by simp
      with Cons.IH have "includesStr cs q" by blast
      then show ?thesis by simp
    qed
  qed
qed

lemma includes_containsCI: "includesStr (toLowerCase s) (toLowerCase q) \<longleftrightarrow> containsCI s q"
  by (simp add: includesStr_iff containsCI_def)

lemma lexicalScore_eq:
  "lexicalScore q img =
     (if containsCI (fileName img) q then 0.8 else 0)
     + (if \<exists>t \<in> set (tagsOrEmpty img). containsCI t q then 1.0 else 0)"
  by (cases "tags img")
     (simp_all add: lexicalScore_def tagsOrEmpty_def Let_def includes_containsCI list_ex_iff)

lemma lexicalScore_values: "lexicalScore q img \<in> {0, 0.8, 1.0, 1.8}"
  by (simp add: lexicalScore_eq)

lemma foldl_lexicalStep:
  "foldl (lexicalStep q) acc imgs =
     acc @ map (\<lambda>img. \<lparr>image = img, similarity = lexicalScore q img\<rparr>)
             (filter (\<lambda>img. lexicalScore q img > 0) imgs)"
  by (induction imgs arbitrary: acc) (simp_all add: lexicalStep_def Let_def)

lemma lexicalPass_eq:
  "lexicalPass q imgs =
     map (\<lambda>img. \<lparr>image = img, similarity = lexicalScore q img\<rparr>)
       (filter (\<lambda>img. lexicalScore q img > 0) imgs)"
  by (simp add: lexicalPass_def foldl_lexicalStep)

lemma foldl_semanticStep:
  "foldl (semanticStep rel) acc imgs =
     acc @ map (\<lambda>img. \<lparr>image = img,
                        similarity = real (length (tagOverlap rel img)) / real (length rel)\<rparr>)
             (filter (\<lambda>img. length (tagOverlap rel img) > 0) imgs)"
  by (induction imgs arbitrary: acc) (simp_all add: semanticStep_def Let_def)

lemma semanticPass_eq:
  "semanticPass rel imgs =
     map (\<lambda>img. \<lparr>image = img,
                  similarity = real (length (tagOverlap rel img)) / real (length rel)\<rparr>)
       (filter (\<lambda>img. length (tagOverlap rel img) > 0) imgs)"
  by (simp add: semanticPass_def foldl_semanticStep)

lemma tagOverlap_eq: "tagOverlap rel img = filter (\<lambda>t. t \<in> set rel) (tagsOrEmpty img)"
  by (cases "tags img") (simp_all add: tagOverlap_def tagsOrEmpty_def)

lemma tagOverlap_Nil: "tagOverlap [] img = []"
  by (simp add: tagOverlap_eq)

lemma semanticPass_Nil: "semanticPass [] imgs = []"
  by (simp add: semanticPass_eq tagOverlap_Nil)

subsection \<open>The set of all tags and the sort\<close>

lemma foldl_setAdd:
  "distinct acc \<Longrightarrow> distinct (foldl setAdd acc xs) \<and> set (foldl setAdd acc xs) = set acc \<union> set xs"
  by (induction xs arbitrary: acc) (auto simp: setAdd_def)

lemma arrayFromSet_distinct: "distinct (arrayFromSet xs)"
  using foldl_setAdd [of "[]" xs] by (simp add: arrayFromSet_def)

lemma arrayFromSet_set: "set (arrayFromSet xs) = set xs"
  using foldl_setAdd [of "[]" xs] by (simp add: arrayFromSet_def)

lemma sortBySimilarityDesc_sorted:
  "sorted_wrt (\<lambda>a b. similarity b \<le> similarity a) (sortBySimilarityDesc rs)"
proof -
  have "sorted (map (\<lambda>r. - similarity r) (sort_key (\<lambda>r. - similarity r) rs))"
    by (rule sorted_sort_key)
  then show ?thesis
    by (simp add: sortBySimilarityDesc_def sorted_map)
qed

lemma sortBySimilarityDesc_mset: "mset (sortBySimilarityDesc rs) = mset rs"
  by (simp add: sortBySimilarityDesc_def)

lemma sortBySimilarityDesc_set: "set (sortBySimilarityDesc rs) = set rs"
  by (simp add: sortBySimilarityDesc_def)

lemma sortBySimilarityDesc_stable:
  "filter (\<lambda>r. similarity r = s) (sortBySimilarityDesc rs) = filter (\<lambda>r. similarity r = s) rs"
  using sort_key_stable [of "\<lambda>r. - similarity r" "- s" rs]
  by (simp add: sortBySimilarityDesc_def)

subsection \<open>The branches of the search\<close>

lemma toLowerCase_examples:
  "toLowerCase ''cat'' = ''cat''"
  "toLowerCase ''a.png'' = ''a.png''"
  "toLowerCase ''cat_photo.jpg'' = ''cat_photo.jpg''"
  "toLowerCase ''dog.png'' = ''dog.png''"
  "toLowerCase ''tree'' = ''tree''"
  by (simp_all add: toLowerCase_def toLowerChar_def upperAZ_def lowerAZ_def)

lemma lexicalScore_cat:
  "lexicalScore ''cat'' catA = 1"
  "lexicalScore ''cat'' catB = 0.8"
  "lexicalScore ''cat'' catC = 0"
  by (simp_all add: lexicalScore_def catA_def catB_def catC_def exampleImage_def
      toLowerCase_examples startsWith_def)

lemma lexicalPass_cat:
  "lexicalPass ''cat'' [catB, catC, catA] =
     [\<lparr>image = catB, similarity = 0.8\<rparr>, \<lparr>image = catA, similarity = 1\<rparr>]"
  by (simp add: lexicalPass_eq lexicalScore_cat)

lemma handleSearch_lexical:
  assumes "trim (searchQuery w) \<noteq> []" and "lexicalPass (searchQuery w) (images w) \<noteq> []"
  shows "handleSearch env w =
           w\<lparr>searchResults := sortBySimilarityDesc (lexicalPass (searchQuery w) (images w)),
             activeView := Search\<rparr>"
  using assms by (simp add: handleSearch_def Let_def)

lemma handleSearch_no_tags:
  assumes "trim (searchQuery w) \<noteq> []" and "lexicalPass (searchQuery w) (images w) = []"
    and "allTags (images w) = []"
  shows "handleSearch env w = w\<lparr>searchResults := [], activeView := Search\<rparr>"
  using assms by (simp add: handleSearch_def Let_def sortBySimilarityDesc_def)

lemma handleSearch_semantic:
  assumes "trim (searchQuery w) \<noteq> []" and "lexicalPass (searchQuery w) (images w) = []"
    and "allTags (images w) \<noteq> []"
  shows "handleSearch env w =
           (snd (searchByDescription env w (searchQuery w)
                   (allTags (images w))))
             \<lparr>searchResults := sortBySimilarityDesc
                 (semanticPass
                    (fst (searchByDescription env w (searchQuery w)
                            (allTags (images w))))
                    (images w)),
              activeView := Search\<rparr>"
  using assms by (simp add: handleSearch_def Let_def case_prod_beta)

lemma searchByDescription_world:
  "snd (searchByDescription env w q ts) = w\<lparr>expandRequests := expandRequests w @ [(q, ts)]\<rparr>"
  by (simp add: searchByDescription_def Let_def split: outcome.split)

lemma handleSearch_sorted:
  "sorted_wrt (\<lambda>a b. similarity b \<le> similarity a) (searchResults (handleSearch env w))"
proof (cases "trim (searchQuery w) = []")
  case True
  then show ?thesis by (simp add: handleSearch_def)
next
  case blank: False
  show ?thesis
  proof (cases "lexicalPass (searchQuery w) (images w) = []")
    case False
    with blank show ?thesis
      by (simp add: handleSearch_lexical sortBySimilarityDesc_sorted)
  next
    case lex: True
    show ?thesis
    proof (cases "allTags (images w) = []")
      case True
      with blank lex show ?thesis by (simp add: handleSearch_no_tags)
    next
      case False
      with blank lex show ?thesis
        by (simp add: handleSearch_semantic sortBySimilarityDesc_sorted)
    qed
  qed
qed

text \<open>
  Claim C4. For a query that is not blank, the score of the keyword matching is 0.8 when
  the file name contains the query case-insensitively, plus 1.0 when some tag does; the
  pass collects exactly the images of positive score, in library order, each with its
  score; the results shown are always in descending order of similarity; and when the
  pass found something, they are its results, stably sorted. In the example (query
  \<open>cat\<close>; \<open>catA\<close> tagged \<open>cat\<close>, \<open>catB\<close> named \<open>cat_photo.jpg\<close>, \<open>catC\<close> with neither) the
  result is \<open>catA\<close> with 1.0 before \<open>catB\<close> with 0.8, without \<open>catC\<close>.
\<close>

theorem handleSearch_lexical_pass:
  assumes "trim (searchQuery w) \<noteq> []"
  shows "lexicalScore (searchQuery w) img =
           (if containsCI (fileName img) (searchQuery w) then 0.8 else 0)
           + (if \<exists>t \<in> set (tagsOrEmpty img). containsCI t (searchQuery w) then 1.0 else 0)
       \<and> lexicalPass (searchQuery w) (images w) =
           map (\<lambda>img. \<lparr>image = img, similarity = lexicalScore (searchQuery w) img\<rparr>)
             (filter (\<lambda>img. lexicalScore (searchQuery w) img > 0) (images w))
       \<and> sorted_wrt (\<lambda>a b. similarity b \<le> similarity a) (searchResults (handleSearch env w))
       \<and> (lexicalPass (searchQuery w) (images w) \<noteq> [] \<longrightarrow>
            searchResults (handleSearch env w) =
              sortBySimilarityDesc (lexicalPass (searchQuery w) (images w))
            \<and> mset (searchResults (handleSearch env w)) =
                mset (lexicalPass (searchQuery w) (images w)))"
proof (intro conjI impI)
  show "lexicalScore (searchQuery w) img =
           (if containsCI (fileName img) (searchQuery w) then 0.8 else 0)
           + (if \<exists>t \<in> set (tagsOrEmpty img). containsCI t (searchQuery w) then 1.0 else 0)"
    by (rule lexicalScore_eq)
  show "lexicalPass (searchQuery w) (images w) =
           map (\<lambda>img. \<lparr>image = img, similarity = lexicalScore (searchQuery w) img\<rparr>)
             (filter (\<lambda>img. lexicalScore (searchQuery w) img > 0) (images w))"
    by (rule lexicalPass_eq)
  show "sorted_wrt (\<lambda>a b. similarity b \<le> similarity a) (searchResults (handleSearch env w))"
    by (rule handleSearch_sorted)
next
  assume ne: "lexicalPass (searchQuery w) (images w) \<noteq> []"
  from assms ne show "searchResults (handleSearch env w) =
      sortBySimilarityDesc (lexicalPass (searchQuery w) (images w))"
    by (simp add: handleSearch_lexical)
  from assms ne show "mset (searchResults (handleSearch env w)) =
      mset (lexicalPass (searchQuery w) (images w))"
    by (simp add: handleSearch_lexical sortBySimilarityDesc_mset)
qed

theorem handleSearch_lexical_pass_witness:
  "trim (searchQuery wCat) \<noteq> []
   \<and> images wCat = [catB, catC, catA]
   \<and> lexicalPass (searchQuery wCat) (images wCat) =
       [\<lparr>image = catB, similarity = 0.8\<rparr>, \<lparr>image = catA, similarity = 1\<rparr>]
   \<and> searchResults (handleSearch exampleEnv wCat) =
       [\<lparr>image = catA, similarity = 1\<rparr>, \<lparr>image = catB, similarity = 0.8\<rparr>]"
proof -
  have q: "searchQuery wCat = ''cat''" and i: "images wCat = [catB, catC, catA]"
    by (simp_all add: wCat_def initialWorld_def)
  have t: "trim (searchQuery wCat) \<noteq> []"
    by (simp add: q trim_def isWhiteSpace_def)
  have l: "lexicalPass (searchQuery wCat) (images wCat) =
       [\<lparr>image = catB, similarity = 0.8\<rparr>, \<lparr>image = catA, similarity = 1\<rparr>]"
    by (simp add: q i lexicalPass_cat)
  from handleSearch_lexical_pass [OF t, of catA exampleEnv] l
  have "searchResults (handleSearch exampleEnv wCat) =
      sortBySimilarityDesc [\<lparr>image = catB, similarity = 0.8\<rparr>, \<lparr>image = catA, similarity = 1\<rparr>]"
    by simp
  then have "searchResults (handleSearch exampleEnv wCat) =
       [\<lparr>image = catA, similarity = 1\<rparr>, \<lparr>image = catB, similarity = 0.8\<rparr>]"
    by (simp add: sortBySimilarityDesc_def)
  with t i l show ?thesis by simp
qed

lemma allTags_distinct: "distinct (allTags imgs)"
  by (simp add: allTags_def arrayFromSet_distinct)

lemma allTags_set: "set (allTags imgs) = (\<Union>img \<in> set imgs. set (tagsOrEmpty img))"
  by (simp add: allTags_def arrayFromSet_set)

lemma searchByDescription_result:
  "fst (searchByDescription env w (searchQuery w) (allTags (images w))) = relevantKeywords env w"
  by (simp add: searchByDescription_def relevantKeywords_def Let_def split: outcome.split)

lemma semanticPass_overlapCount:
  "semanticPass rel imgs =
     map (\<lambda>img. \<lparr>image = img, similarity = real (overlapCount rel img) / real (length rel)\<rparr>)
       (filter (\<lambda>img. overlapCount rel img > 0) imgs)"
  by (simp add: semanticPass_eq tagOverlap_eq overlapCount_def)

lemma handleSearch_semantic_results:
  assumes "trim (searchQuery w) \<noteq> []" and "lexicalPass (searchQuery w) (images w) = []"
    and "allTags (images w) \<noteq> []"
  shows "searchResults (handleSearch env w) =
           sortBySimilarityDesc (semanticPass (relevantKeywords env w) (images w))"
    and "expandRequests (handleSearch env w) =
           expandRequests w @ [(searchQuery w, allTags (images w))]"
  using assms
  by (simp_all add: handleSearch_semantic searchByDescription_result searchByDescription_world)

text \<open>
  Claim C5. For a query that is not blank: when the keyword matching found something,
  no request goes to the expansion service. When it found nothing, the request (if the
  library has any tag) carries the query and all tags of the library, each once; every
  image is scored by the number of its tags among the returned keywords divided by the
  number of returned keywords, images with no such tag are left out, and the result is
  empty when no keyword is returned (or the library has no tag, in which case no
  request is sent).
\<close>

theorem handleSearch_semantic_fallback:
  assumes "trim (searchQuery w) \<noteq> []"
  shows "(lexicalPass (searchQuery w) (images w) \<noteq> [] \<longrightarrow>
            expandRequests (handleSearch env w) = expandRequests w)
       \<and> distinct (allTags (images w))
       \<and> set (allTags (images w)) = (\<Union>img \<in> set (images w). set (tagsOrEmpty img))
       \<and> (lexicalPass (searchQuery w) (images w) = [] \<and> allTags (images w) = [] \<longrightarrow>
            expandRequests (handleSearch env w) = expandRequests w
            \<and> searchResults (handleSearch env w) = [])
       \<and> (lexicalPass (searchQuery w) (images w) = [] \<and> allTags (images w) \<noteq> [] \<longrightarrow>
            expandRequests (handleSearch env w) =
              expandRequests w @ [(searchQuery w, allTags (images w))]
            \<and> searchResults (handleSearch env w) =
                sortBySimilarityDesc
                  (map (\<lambda>img. \<lparr>image = img,
                               similarity = real (overlapCount (relevantKeywords env w) img)
                                            / real (length (relevantKeywords env w))\<rparr>)
                     (filter (\<lambda>img. overlapCount (relevantKeywords env w) img > 0) (images w)))
            \<and> (relevantKeywords env w = [] \<longrightarrow> searchResults (handleSearch env w) = []))"
proof (intro conjI impI)
  assume "lexicalPass (searchQuery w) (images w) \<noteq> []"
  with assms show "expandRequests (handleSearch env w) = expandRequests w"
    by (simp add: handleSearch_lexical)
next
  show "distinct (allTags (images w))" by (rule allTags_distinct)
  show "set (allTags (images w)) = (\<Union>img \<in> set (images w). set (tagsOrEmpty img))"
    by (rule allTags_set)
next
  assume a: "lexicalPass (searchQuery w) (images w) = [] \<and> allTags (images w) = []"
  with assms show "expandRequests (handleSearch env w) = expandRequests w"
    by (simp add: handleSearch_no_tags)
  from assms a show "searchResults (handleSearch env w) = []"
    by (simp add: handleSearch_no_tags)
next
  assume a: "lexicalPass (searchQuery w) (images w) = [] \<and> allTags (images w) \<noteq> []"
  with assms show "expandRequests (handleSearch env w) =
      expandRequests w @ [(searchQuery w, allTags (images w))]"
    by (simp add: handleSearch_semantic_results)
  from assms a show "searchResults (handleSearch env w) =
      sortBySimilarityDesc
        (map (\<lambda>img. \<lparr>image = img,
                     similarity = real (overlapCount (relevantKeywords env w) img)
                                  / real (length (relevantKeywords env w))\<rparr>)
           (filter (\<lambda>img. overlapCount (relevantKeywords env w) img > 0) (images w)))"
    by (simp add: handleSearch_semantic_results semanticPass_overlapCount)
  assume "relevantKeywords env w = []"
  with assms a show "searchResults (handleSearch env w) = []"
    by (simp add: handleSearch_semantic_results semanticPass_Nil sortBySimilarityDesc_def)
qed

lemmas lower_defs = toLowerCase_def toLowerChar_def upperAZ_def lowerAZ_def

lemma lexicalScore_puppy:
  "lexicalScore ''puppy'' dogX = 0"
  "lexicalScore ''puppy'' dogY = 0"
  "lexicalScore ''puppy'' dogZ = 0"
  "lexicalScore ''puppy'' dogDog = 0"
  by (simp_all add: lexicalScore_def dogX_def dogY_def dogZ_def dogDog_def exampleImage_def
      lower_defs startsWith_def)

lemma lexicalScore_puppy_dupD: "lexicalScore ''puppy'' dupD = 0"
  by (simp add: lexicalScore_def dupD_def exampleImage_def lower_defs startsWith_def)

lemma tagsOrEmpty_dupD: "tagsOrEmpty dupD = []"
  by (simp add: tagsOrEmpty_def dupD_def exampleImage_def)

lemma lexicalScore_catBoth: "lexicalScore ''cat'' catBoth = 1.8"
  by (simp add: lexicalScore_def catBoth_def exampleImage_def lower_defs startsWith_def)

lemma trim_examples: "trim ''cat'' \<noteq> []" "trim ''puppy'' \<noteq> []"
  by (simp_all add: trim_def isWhiteSpace_def)

lemma wDog_fields:
  "images wDog = [dogX, dogY, dogZ]" "searchQuery wDog = ''puppy''" "expandRequests wDog = []"
  by (simp_all add: wDog_def initialWorld_def)

lemma wDog_allTags: "allTags [dogX, dogY, dogZ] = [''dog'', ''tree'']"
  by (simp add: allTags_def arrayFromSet_def setAdd_def tagsOrEmpty_def dogX_def dogY_def
      dogZ_def exampleImage_def)

lemma wDog_facts:
  "trim (searchQuery wDog) \<noteq> []"
  "lexicalPass (searchQuery wDog) (images wDog) = []"
  "allTags (images wDog) = [''dog'', ''tree'']"
  "relevantKeywords exampleEnv wDog = [''dog'']"
  "expandRequests wDog = []"
proof -
  show "trim (searchQuery wDog) \<noteq> []"
    by (simp add: wDog_fields trim_examples)
  show "lexicalPass (searchQuery wDog) (images wDog) = []"
    by (simp add: wDog_fields lexicalPass_eq lexicalScore_puppy)
  show "allTags (images wDog) = [''dog'', ''tree'']"
    by (simp add: wDog_fields wDog_allTags)
  show "relevantKeywords exampleEnv wDog = [''dog'']"
    by (simp add: relevantKeywords_def exampleEnv_def)
  show "expandRequests wDog = []"
    by (simp add: wDog_fields)
qed

lemma wDog_overlap:
  "overlapCount [''dog''] dogX = 1" "overlapCount [''dog''] dogY = 0"
  "overlapCount [''dog''] dogZ = 1"
  by (simp_all add: overlapCount_def tagsOrEmpty_def dogX_def dogY_def dogZ_def exampleImage_def)

lemma wCat_facts:
  "trim (searchQuery wCat) \<noteq> []"
  "lexicalPass (searchQuery wCat) (images wCat) \<noteq> []"
  "expandRequests wCat = []"
  by (simp_all add: wCat_def initialWorld_def trim_examples lexicalPass_cat)

theorem handleSearch_semantic_fallback_witness:
  "trim (searchQuery wDog) \<noteq> []
   \<and> lexicalPass (searchQuery wDog) (images wDog) = []
   \<and> allTags (images wDog) = [''dog'', ''tree'']
   \<and> relevantKeywords exampleEnv wDog = [''dog'']
   \<and> expandRequests (handleSearch exampleEnv wDog) = [(''puppy'', [''dog'', ''tree''])]
   \<and> searchResults (handleSearch exampleEnv wDog) =
       [\<lparr>image = dogX, similarity = 1\<rparr>, \<lparr>image = dogZ, similarity = 1\<rparr>]
   \<and> trim (searchQuery wCat) \<noteq> []
   \<and> lexicalPass (searchQuery wCat) (images wCat) \<noteq> []
   \<and> expandRequests (handleSearch exampleEnv wCat) = []
   \<and> relevantKeywords failingEnv wDog = []
   \<and> searchResults (handleSearch failingEnv wDog) = []
   \<and> trim (searchQuery wNoTags) \<noteq> []
   \<and> lexicalPass (searchQuery wNoTags) (images wNoTags) = []
   \<and> allTags (images wNoTags) = []
   \<and> expandRequests (handleSearch exampleEnv wNoTags) = []
   \<and> searchResults (handleSearch exampleEnv wNoTags) = []"
proof -
  have ne: "allTags (images wDog) \<noteq> []"
    by (simp add: wDog_facts)
  have fail: "relevantKeywords failingEnv wDog = []"
    by (simp add: relevantKeywords_def failingEnv_def)
  from handleSearch_semantic_fallback [OF wDog_facts(1), of failingEnv] wDog_facts(2) ne fail
  have failed: "searchResults (handleSearch failingEnv wDog) = []"
    by blast
  have nt: "trim (searchQuery wNoTags) \<noteq> []"
      "lexicalPass (searchQuery wNoTags) (images wNoTags) = []"
      "allTags (images wNoTags) = []"
      "expandRequests wNoTags = []"
    by (simp_all add: wNoTags_def initialWorld_def trim_examples lexicalPass_eq
        lexicalScore_puppy_dupD allTags_def arrayFromSet_def tagsOrEmpty_dupD)
  from handleSearch_semantic_fallback [OF nt(1), of exampleEnv] nt(2,3)
  have "expandRequests (handleSearch exampleEnv wNoTags) = expandRequests wNoTags"
    and notags: "searchResults (handleSearch exampleEnv wNoTags) = []"
    by blast+
  then have noreq: "expandRequests (handleSearch exampleEnv wNoTags) = []"
    by (simp add: nt)
  from handleSearch_semantic_fallback [OF wDog_facts(1), of exampleEnv] wDog_facts(2) ne
  have req: "expandRequests (handleSearch exampleEnv wDog) =
        expandRequests wDog @ [(searchQuery wDog, allTags (images wDog))]"
    and res: "searchResults (handleSearch exampleEnv wDog) =
        sortBySimilarityDesc
          (map (\<lambda>img. \<lparr>image = img,
                       similarity = real (overlapCount (relevantKeywords exampleEnv wDog) img)
                                    / real (length (relevantKeywords exampleEnv wDog))\<rparr>)
             (filter (\<lambda>img. overlapCount (relevantKeywords exampleEnv wDog) img > 0)
                (images wDog)))"
    by blast+
  from req have req': "expandRequests (handleSearch exampleEnv wDog) =
      [(''puppy'', [''dog'', ''tree''])]"
    by (simp add: wDog_facts(3) wDog_fields(2,3))
  from res have res': "searchResults (handleSearch exampleEnv wDog) =
      [\<lparr>image = dogX, similarity = 1\<rparr>, \<lparr>image = dogZ, similarity = 1\<rparr>]"
    by (simp add: wDog_facts(4) wDog_fields wDog_overlap sortBySimilarityDesc_def)
  from handleSearch_semantic_fallback [OF wCat_facts(1), of exampleEnv] wCat_facts(2)
  have "expandRequests (handleSearch exampleEnv wCat) = expandRequests wCat"
    by blast
  then have cat: "expandRequests (handleSearch exampleEnv wCat) = []"
    by (simp add: wCat_facts)
  from req' res' cat fail failed nt notags noreq show ?thesis
    by (simp add: wDog_facts wCat_facts)
qed

lemma overlapCount_le:
  assumes "distinct (tagsOrEmpty img)"
  shows "overlapCount rel img \<le> length rel"
proof -
  let ?ov = "filter (\<lambda>t. t \<in> set rel) (tagsOrEmpty img)"
  from assms have "distinct ?ov" by simp
  then have "length ?ov = card (set ?ov)"
    by (rule distinct_card [symmetric])
  also have "\<dots> \<le> card (set rel)"
    by (rule card_mono) auto
  also have "\<dots> \<le> length rel"
    by (rule card_length)
  finally show ?thesis by (simp add: overlapCount_def)
qed

lemma overlapCount_pos: "0 < overlapCount rel img \<Longrightarrow> rel \<noteq> []"
  by (auto simp: overlapCount_def)

text \<open>
  Claim C2, as the code has it. Every result of a search has a similarity above 0. A
  result of the keyword matching has similarity 0.8, 1.0 or 1.8, the score of its image;
  it is at most 1 unless the file name and some tag both contain the query. A result of
  the semantic pass has similarity at most 1 when the tags of its image are pairwise
  distinct.
\<close>

theorem handleSearch_similarity_range:
  assumes "r \<in> set (searchResults (handleSearch env w))"
  shows "0 < similarity r
       \<and> (lexicalPass (searchQuery w) (images w) \<noteq> [] \<longrightarrow>
            similarity r = lexicalScore (searchQuery w) (image r)
            \<and> (similarity r = 0.8 \<or> similarity r = 1 \<or> similarity r = 1.8)
            \<and> (similarity r \<le> 1 \<longleftrightarrow>
                 \<not> (containsCI (fileName (image r)) (searchQuery w)
                    \<and> (\<exists>t \<in> set (tagsOrEmpty (image r)). containsCI t (searchQuery w)))))
       \<and> (lexicalPass (searchQuery w) (images w) = [] \<and> distinct (tagsOrEmpty (image r)) \<longrightarrow>
            similarity r \<le> 1)"
proof -
  have blank: "trim (searchQuery w) \<noteq> []"
    using assms by (auto simp: handleSearch_def)
  show ?thesis
  proof (cases "lexicalPass (searchQuery w) (images w) = []")
    case False
    with blank assms have "r \<in> set (lexicalPass (searchQuery w) (images w))"
      by (simp add: handleSearch_lexical sortBySimilarityDesc_set)
    then have s: "similarity r = lexicalScore (searchQuery w) (image r)"
      and pos: "0 < lexicalScore (searchQuery w) (image r)"
      by (auto simp: lexicalPass_eq)
    from pos have "lexicalScore (searchQuery w) (image r) = 0.8
        \<or> lexicalScore (searchQuery w) (image r) = 1
        \<or> lexicalScore (searchQuery w) (image r) = 1.8"
      using lexicalScore_values [of "searchQuery w" "image r"] by auto
    moreover have "lexicalScore (searchQuery w) (image r) \<le> 1 \<longleftrightarrow>
        \<not> (containsCI (fileName (image r)) (searchQuery w)
           \<and> (\<exists>t \<in> set (tagsOrEmpty (image r)). containsCI t (searchQuery w)))"
      by (simp add: lexicalScore_eq)
    ultimately show ?thesis using False s pos by simp
  next
    case True
    have tags: "allTags (images w) \<noteq> []"
    proof
      assume "allTags (images w) = []"
      with blank True assms show False by (simp add: handleSearch_no_tags)
    qed
    let ?rel = "relevantKeywords env w"
    from blank True tags assms have "r \<in> set (semanticPass ?rel (images w))"
      by (simp add: handleSearch_semantic_results sortBySimilarityDesc_set)
    then have s: "similarity r = real (overlapCount ?rel (image r)) / real (length ?rel)"
      and pos: "0 < overlapCount ?rel (image r)"
      by (auto simp: semanticPass_overlapCount)
    from pos have "?rel \<noteq> []" by (rule overlapCount_pos)
    then have len: "0 < length ?rel" by simp
    with pos s have "0 < similarity r" by simp
    moreover have "similarity r \<le> 1" if "distinct (tagsOrEmpty (image r))"
      using overlapCount_le [OF that, of ?rel] len s by simp
    ultimately show ?thesis using True by simp
  qed
qed

lemma handleSearch_wCat:
  "searchResults (handleSearch exampleEnv wCat) =
     [\<lparr>image = catA, similarity = 1\<rparr>, \<lparr>image = catB, similarity = 0.8\<rparr>]"
proof -
  have "lexicalPass (searchQuery wCat) (images wCat) =
       [\<lparr>image = catB, similarity = 0.8\<rparr>, \<lparr>image = catA, similarity = 1\<rparr>]"
    by (simp add: wCat_def initialWorld_def lexicalPass_cat)
  then show ?thesis
    using handleSearch_lexical [OF wCat_facts(1,2), of exampleEnv]
    by (simp add: sortBySimilarityDesc_def)
qed

lemma handleSearch_wDog:
  "searchResults (handleSearch exampleEnv wDog) =
     [\<lparr>image = dogX, similarity = 1\<rparr>, \<lparr>image = dogZ, similarity = 1\<rparr>]"
proof -
  have ne: "allTags (images wDog) \<noteq> []"
    by (simp add: wDog_facts)
  show ?thesis
    using handleSearch_semantic_results(1) [OF wDog_facts(1,2) ne, of exampleEnv]
    by (simp add: wDog_facts(4) wDog_fields semanticPass_overlapCount wDog_overlap
        sortBySimilarityDesc_def)
qed

lemma wBoth_fields: "images wBoth = [catBoth]" "searchQuery wBoth = ''cat''"
  by (simp_all add: wBoth_def initialWorld_def)

lemma handleSearch_wBoth:
  "searchResults (handleSearch exampleEnv wBoth) = [\<lparr>image = catBoth, similarity = 1.8\<rparr>]"
proof -
  have l: "lexicalPass (searchQuery wBoth) (images wBoth) =
      [\<lparr>image = catBoth, similarity = 1.8\<rparr>]"
    by (simp add: wBoth_fields lexicalPass_eq lexicalScore_catBoth)
  have t: "trim (searchQuery wBoth) \<noteq> []"
    by (simp add: wBoth_fields trim_examples)
  from l have ne: "lexicalPass (searchQuery wBoth) (images wBoth) \<noteq> []" by simp
  show ?thesis
    using handleSearch_lexical [OF t ne, of exampleEnv] l
    by (simp add: sortBySimilarityDesc_def)
qed

lemma wDogDog_fields:
  "images wDogDog = [dogDog]" "searchQuery wDogDog = ''puppy''" "expandRequests wDogDog = []"
  by (simp_all add: wDogDog_def initialWorld_def)

lemma handleSearch_wDogDog:
  "searchResults (handleSearch exampleEnv wDogDog) = [\<lparr>image = dogDog, similarity = 2\<rparr>]"
proof -
  have t: "trim (searchQuery wDogDog) \<noteq> []"
    by (simp add: wDogDog_fields trim_examples)
  have l: "lexicalPass (searchQuery wDogDog) (images wDogDog) = []"
    by (simp add: wDogDog_fields lexicalPass_eq lexicalScore_puppy)
  have a: "allTags [dogDog] = [''dog'']"
    by (simp add: allTags_def arrayFromSet_def setAdd_def tagsOrEmpty_def dogDog_def
        exampleImage_def)
  then have ne: "allTags (images wDogDog) \<noteq> []"
    by (simp add: wDogDog_fields)
  have rel: "relevantKeywords exampleEnv wDogDog = [''dog'']"
    by (simp add: relevantKeywords_def exampleEnv_def)
  have ov: "overlapCount [''dog''] dogDog = 2"
    by (simp add: overlapCount_def tagsOrEmpty_def dogDog_def exampleImage_def)
  show ?thesis
    using handleSearch_semantic_results(1) [OF t l ne, of exampleEnv]
    by (simp add: rel wDogDog_fields semanticPass_overlapCount ov sortBySimilarityDesc_def)
qed

text \<open>
  Claim C2 as stated fails: an image whose file name and tag both contain the query gets
  0.8 + 1.0 = 1.8; and in the semantic pass an image that carries a returned keyword
  twice gets 2 / 1.
\<close>

theorem similarity_above_1_counterexample:
  "includesStr (toLowerCase (fileName catBoth)) (toLowerCase ''cat'')
   \<and> tags catBoth = Some [''cat'']
   \<and> includesStr (toLowerCase ''cat'') (toLowerCase ''cat'')
   \<and> searchQuery wBoth = ''cat'' \<and> images wBoth = [catBoth]
   \<and> searchResults (handleSearch exampleEnv wBoth) = [\<lparr>image = catBoth, similarity = 1.8\<rparr>]
   \<and> \<not> similarity (hd (searchResults (handleSearch exampleEnv wBoth))) \<le> 1
   \<and> tags dogDog = Some [''dog'', ''dog'']
   \<and> searchQuery wDogDog = ''puppy'' \<and> images wDogDog = [dogDog]
   \<and> searchResults (handleSearch exampleEnv wDogDog) = [\<lparr>image = dogDog, similarity = 2\<rparr>]
   \<and> \<not> similarity (hd (searchResults (handleSearch exampleEnv wDogDog))) \<le> 1"
proof -
  have "includesStr (toLowerCase (fileName catBoth)) (toLowerCase ''cat'')"
    by (simp add: catBoth_def exampleImage_def lower_defs startsWith_def)
  moreover have "includesStr (toLowerCase ''cat'') (toLowerCase ''cat'')"
    by (simp add: lower_defs startsWith_def)
  moreover have "tags catBoth = Some [''cat'']" "tags dogDog = Some [''dog'', ''dog'']"
    by (simp_all add: catBoth_def dogDog_def exampleImage_def)
  ultimately show ?thesis
    by (simp add: handleSearch_wBoth handleSearch_wDogDog wBoth_fields wDogDog_fields)
qed

theorem handleSearch_similarity_range_witness:
  "hd (searchResults (handleSearch exampleEnv wCat)) \<in> set (searchResults (handleSearch exampleEnv wCat))
   \<and> lexicalPass (searchQuery wCat) (images wCat) \<noteq> []
   \<and> 0 < similarity (hd (searchResults (handleSearch exampleEnv wCat)))
   \<and> similarity (hd (searchResults (handleSearch exampleEnv wCat))) = 1
   \<and> similarity (hd (searchResults (handleSearch exampleEnv wCat)))
       = lexicalScore (searchQuery wCat) (image (hd (searchResults (handleSearch exampleEnv wCat))))
   \<and> hd (searchResults (handleSearch exampleEnv wDog)) \<in> set (searchResults (handleSearch exampleEnv wDog))
   \<and> lexicalPass (searchQuery wDog) (images wDog) = []
   \<and> distinct (tagsOrEmpty (image (hd (searchResults (handleSearch exampleEnv wDog)))))
   \<and> 0 < similarity (hd (searchResults (handleSearch exampleEnv wDog)))
   \<and> similarity (hd (searchResults (handleSearch exampleEnv wDog))) \<le> 1"
proof -
  let ?rc = "hd (searchResults (handleSearch exampleEnv wCat))"
  let ?rd = "hd (searchResults (handleSearch exampleEnv wDog))"
  have mc: "?rc \<in> set (searchResults (handleSearch exampleEnv wCat))"
    by (simp add: handleSearch_wCat)
  have md: "?rd \<in> set (searchResults (handleSearch exampleEnv wDog))"
    by (simp add: handleSearch_wDog)
  have dd: "distinct (tagsOrEmpty (image ?rd))"
    by (simp add: handleSearch_wDog tagsOrEmpty_def dogX_def exampleImage_def)
  have vc: "similarity ?rc = 1"
    by (simp add: handleSearch_wCat)
  from handleSearch_similarity_range [OF mc] wCat_facts(2)
  have c: "0 < similarity ?rc"
    "similarity ?rc = lexicalScore (searchQuery wCat) (image ?rc)"
    by blast+
  from handleSearch_similarity_range [OF md] wDog_facts(2) dd
  have d: "0 < similarity ?rd" "similarity ?rd \<le> 1"
    by blast+
  from mc md dd vc c d wCat_facts(2) wDog_facts(2) show ?thesis by blast
qed

section \<open>Properties of the fingerprint\<close>

lemma Math_round_examples: "Math_round 0 = 0" "Math_round (3 / 4) = 1"
  by (simp_all add: Math_round_def)

lemma concat_map_const: "concat (map (\<lambda>i. [c]) xs) = replicate (length xs) c"
  by (induction xs) simp_all

lemma mathRandom_exampleEnv: "mathRandom exampleEnv n = (if n < 64 then 0 else 3 / 4)"
  by (simp add: exampleEnv_def)

lemma calculatePHash_first:
  "fst (calculatePHash exampleEnv initialWorld url) = replicate 64 CHR ''0''"
proof -
  have eq: "bitDigit (Math_round (mathRandom exampleEnv (randomDrawn initialWorld + i))) = ''0''"
    if "i \<in> set [0..<64]" for i
    using that by (simp add: mathRandom_exampleEnv initialWorld_def bitDigit_def Math_round_examples)
  have "map (\<lambda>i. bitDigit (Math_round (mathRandom exampleEnv (randomDrawn initialWorld + i)))) [0..<64]
      = map (\<lambda>i. ''0'') [0..<64]"
    by (rule map_cong [OF refl]) (rule eq)
  then have "fst (calculatePHash exampleEnv initialWorld url) = concat (map (\<lambda>i. ''0'') [0..<64])"
    unfolding calculatePHash_def fst_conv by (rule arg_cong)
  then show ?thesis
    by (simp only: concat_map_const) simp
qed

lemma calculatePHash_second:
  "fst (calculatePHash exampleEnv (snd (calculatePHash exampleEnv initialWorld url)) url)
     = replicate 64 CHR ''1''"
proof -
  let ?w = "snd (calculatePHash exampleEnv initialWorld url)"
  have r: "randomDrawn ?w = 64"
    by (simp add: calculatePHash_def initialWorld_def)
  have eq: "bitDigit (Math_round (mathRandom exampleEnv (randomDrawn ?w + i))) = ''1''" for i
    by (simp add: r mathRandom_exampleEnv bitDigit_def Math_round_examples)
  have "map (\<lambda>i. bitDigit (Math_round (mathRandom exampleEnv (randomDrawn ?w + i)))) [0..<64]
      = map (\<lambda>i. ''1'') [0..<64]"
    by (rule map_cong [OF refl]) (rule eq)
  then have "fst (calculatePHash exampleEnv ?w url) = concat (map (\<lambda>i. ''1'') [0..<64])"
    unfolding calculatePHash_def [of exampleEnv ?w url] fst_conv by (rule arg_cong)
  then show ?thesis
    by (simp only: concat_map_const) simp
qed

text \<open>
  Claim C1 fails on the code: \<open>calculatePHash\<close> does not read its argument and draws 64
  random bits at every call. In the example environment two successive calls on the same
  thumbnail return 64 zeros and then 64 ones.
\<close>

theorem calculatePHash_not_deterministic:
  "fst (calculatePHash exampleEnv initialWorld ''data:image/jpeg;base64,AAAA'') = replicate 64 CHR ''0''
   \<and> fst (calculatePHash exampleEnv
            (snd (calculatePHash exampleEnv initialWorld ''data:image/jpeg;base64,AAAA''))
            ''data:image/jpeg;base64,AAAA'') = replicate 64 CHR ''1''
   \<and> fst (calculatePHash exampleEnv initialWorld ''data:image/jpeg;base64,AAAA'')
       \<noteq> fst (calculatePHash exampleEnv
            (snd (calculatePHash exampleEnv initialWorld ''data:image/jpeg;base64,AAAA''))
            ''data:image/jpeg;base64,AAAA'')"
  by (simp add: calculatePHash_first calculatePHash_second)

section \<open>Properties of indexing\<close>

subsection \<open>One file\<close>

lemma calculatePHash_world:
  "snd (calculatePHash env w u) = w\<lparr>randomDrawn := randomDrawn w + 64\<rparr>"
  by (simp add: calculatePHash_def)

lemma analyzeImageSemantics_world:
  "snd (analyzeImageSemantics env w u) =
     w\<lparr>tagRequests := tagRequests w @ [arrayAt (splitOn CHR '','' u) 1]\<rparr>"
  by (simp add: analyzeImageSemantics_def Let_def split: outcome.split)

lemma processFile_skip:
  "alreadyInDb (fst st) f \<or> decodeImage env f = None \<Longrightarrow>
     processFile env st f = (fst st, snd st + 1)"
  by (auto simp: processFile_def Let_def generateThumbnail_def)



lemma processFile_add_db:
  assumes "\<not> alreadyInDb (fst st) f" and "decodeImage env f = Some (th, wd, ht)"
  shows "\<exists>r. dbImages (fst (processFile env st f)) = dbImages (fst st) @ [r]
           \<and> fileName r = file_name f \<and> fileSize r = file_size f
           \<and> (5 \<le> snd st \<longrightarrow> tags r = Some [])"
  using assms
  by (simp add: processFile_def Let_def generateThumbnail_def case_prod_beta
      calculatePHash_world analyzeImageSemantics_world dbAdd_def)



subsection \<open>The loop and the run\<close>

lemma processFiles_Nil: "processFiles env st [] = st"
  by (simp add: processFiles_def)

lemma processFiles_Cons:
  "processFiles env st (f # fs) = processFiles env (processFile env st f) fs"
  by (simp add: processFiles_def)






lemma imageFiles_idem: "imageFiles (imageFiles fl) = imageFiles fl"
  by (simp add: imageFiles_def)



lemma processFileList_run:
  "imageFiles fl \<noteq> [] \<Longrightarrow> processFileList env w fl =
     loadLibrary (fst (processFiles env (w\<lparr>errorMessage := None\<rparr>, 0) (imageFiles fl)))"
  by (simp add: processFileList_def)


subsection \<open>The skip test\<close>

lemma find_map_keys:
  "find P (map g xs) = map_option g (find (\<lambda>x. P (g x)) xs)"
  by (induction xs) simp_all

lemma alreadyInDb_keys:
  "alreadyInDb w f =
     (case find (\<lambda>k. fst k = file_name f) (map nameSize (dbImages w)) of
        None \<Rightarrow> False
      | Some k \<Rightarrow> snd k = file_size f)"
  by (simp add: alreadyInDb_def dbFirstByFileName_def find_map_keys nameSize_def
      split: option.split)

lemma processFile_keys:
  "map nameSize (dbImages (fst (processFile env st f)))
     = keysStep env (map nameSize (dbImages (fst st))) f"
proof (cases "alreadyInDb (fst st) f \<or> decodeImage env f = None")
  case True
  then show ?thesis
    by (auto simp: processFile_skip keysStep_def alreadyInDb_keys)
next
  case False
  then obtain th wd ht where d: "decodeImage env f = Some (th, wd, ht)"
    by (cases "decodeImage env f") auto
  from False have n: "\<not> alreadyInDb (fst st) f" by simp
  from processFile_add_db [OF n d] obtain r
    where "dbImages (fst (processFile env st f)) = dbImages (fst st) @ [r]"
      "fileName r = file_name f" "fileSize r = file_size f"
    by blast
  with False show ?thesis
    by (auto simp: keysStep_def alreadyInDb_keys nameSize_def)
qed

lemma processFiles_keys:
  "map nameSize (dbImages (fst (processFiles env st fs)))
     = foldl (keysStep env) (map nameSize (dbImages (fst st))) fs"
  by (induction fs arbitrary: st)
     (simp_all add: processFiles_Nil processFiles_Cons processFile_keys)

lemma processFileList_keys:
  "imageFiles fl \<noteq> [] \<Longrightarrow>
     map nameSize (dbImages (processFileList env w fl))
       = foldl (keysStep env) (map nameSize (dbImages w)) (imageFiles fl)"
  by (simp add: processFileList_run loadLibrary_def processFiles_keys)

lemma decodeImage_exampleEnv: "decodeImage exampleEnv f \<noteq> None"
  by (simp add: exampleEnv_def)

lemma imageFiles_examples:
  "imageFiles [fileA10, fileA20] = [fileA10, fileA20]"
  "imageFiles [fileA20] = [fileA20]"
  "imageFiles files7 = files7"
  by (simp_all add: imageFiles_def files7_def fileA10_def fileA20_def exampleFile_def startsWith_def)

text \<open>
  Claim C9 fails on the code. After indexing \<open>x/a.jpg\<close> (size 10) and \<open>y/a.jpg\<close> (size 20)
  the table holds both, and a record matches \<open>y/a.jpg\<close> in name and size; yet the skip
  test, which looks only at the first record of that name, does not hold for it, and
  indexing \<open>y/a.jpg\<close> again stores it a second time.
\<close>

theorem same_name_and_size_not_skipped:
  "map nameSize (dbImages (processFileList exampleEnv initialWorld [fileA10, fileA20]))
     = [(''a.jpg'', 10), (''a.jpg'', 20)]
   \<and> file_name fileA20 = ''a.jpg'' \<and> file_size fileA20 = 20
   \<and> \<not> alreadyInDb (processFileList exampleEnv initialWorld [fileA10, fileA20]) fileA20
   \<and> map nameSize (dbImages (processFileList exampleEnv
         (processFileList exampleEnv initialWorld [fileA10, fileA20]) [fileA20]))
     = [(''a.jpg'', 10), (''a.jpg'', 20), (''a.jpg'', 20)]"
proof -
  let ?w = "processFileList exampleEnv initialWorld [fileA10, fileA20]"
  have f: "file_name fileA10 = ''a.jpg''" "file_size fileA10 = 10"
      "file_name fileA20 = ''a.jpg''" "file_size fileA20 = 20"
    by (simp_all add: fileA10_def fileA20_def exampleFile_def)
  have k: "map nameSize (dbImages ?w) = [(''a.jpg'', 10), (''a.jpg'', 20)]"
    by (simp add: processFileList_keys imageFiles_examples keysStep_def f
        decodeImage_exampleEnv initialWorld_def)
  have a: "\<not> alreadyInDb ?w fileA20"
    by (simp add: alreadyInDb_keys k f)
  have k': "map nameSize (dbImages (processFileList exampleEnv ?w [fileA20]))
      = [(''a.jpg'', 10), (''a.jpg'', 20), (''a.jpg'', 20)]"
    by (simp add: processFileList_keys imageFiles_examples keysStep_def f
        decodeImage_exampleEnv k)
  from k a k' f show ?thesis by simp
qed

lemma exampleFile_fields:
  "file_name (exampleFile n sz path) = n" "file_size (exampleFile n sz path) = sz"
  by (simp_all add: exampleFile_def)

lemma files7_keys:
  "map nameSize (dbImages (processFileList exampleEnv initialWorld files7)) =
     [(''f1.jpg'', 1), (''f2.jpg'', 2), (''f3.jpg'', 3), (''f4.jpg'', 4), (''f5.jpg'', 5),
      (''f6.jpg'', 6), (''f7.jpg'', 7)]"
proof -
  have "imageFiles files7 \<noteq> []"
    by (simp add: imageFiles_examples) (simp add: files7_def)
  then show ?thesis
    by (simp add: processFileList_keys imageFiles_examples)
       (simp add: files7_def keysStep_def exampleFile_fields decodeImage_exampleEnv
          initialWorld_def)
qed

lemma files7_take5:
  "take 5 (imageFiles files7) =
     [exampleFile ''f1.jpg'' 1 [], exampleFile ''f2.jpg'' 2 [], exampleFile ''f3.jpg'' 3 [],
      exampleFile ''f4.jpg'' 4 [], exampleFile ''f5.jpg'' 5 []]"
  by (simp add: imageFiles_examples) (simp add: files7_def)

lemma files7_first_five_keys:
  "map nameSize (dbImages (processFileList exampleEnv initialWorld (take 5 (imageFiles files7)))) =
     [(''f1.jpg'', 1), (''f2.jpg'', 2), (''f3.jpg'', 3), (''f4.jpg'', 4), (''f5.jpg'', 5)]"
proof -
  let ?five = "[exampleFile ''f1.jpg'' 1 [], exampleFile ''f2.jpg'' 2 [], exampleFile ''f3.jpg'' 3 [],
      exampleFile ''f4.jpg'' 4 [], exampleFile ''f5.jpg'' 5 []]"
  have i: "imageFiles ?five = ?five"
    by (simp add: imageFiles_def exampleFile_def startsWith_def)
  then have "imageFiles ?five \<noteq> []" by simp
  from processFileList_keys [OF this, of exampleEnv initialWorld]
  have "map nameSize (dbImages (processFileList exampleEnv initialWorld ?five)) =
     [(''f1.jpg'', 1), (''f2.jpg'', 2), (''f3.jpg'', 3), (''f4.jpg'', 4), (''f5.jpg'', 5)]"
    unfolding i
    by (simp add: keysStep_def exampleFile_fields decodeImage_exampleEnv initialWorld_def)
  then show ?thesis by (simp only: files7_take5)
qed

section \<open>Properties of the tagging service call\<close>

lemma splitOn_not_Nil: "splitOn sep s \<noteq> []"
  by (induction s) (simp_all split: list.split)

lemma length_splitOn: "length (splitOn sep s) = 1 + count_list s sep"
proof (induction s)
  case Nil
  then show ?case by simp
next
  case (Cons c cs)
  then show ?case
    using splitOn_not_Nil [of sep cs] by (cases "splitOn sep cs") auto
qed

lemma upper_lower_disjoint: "set lowerAZ \<inter> set upperAZ = {}"
  by (simp add: upperAZ_def lowerAZ_def)

lemma length_upper_lower: "length upperAZ = length lowerAZ"
  by (simp add: upperAZ_def lowerAZ_def)

lemma toLowerChar_not_upper: "toLowerChar c \<notin> set upperAZ"
proof (cases "map_of (zip upperAZ lowerAZ) c")
  case None
  then have "c \<notin> set upperAZ"
    using length_upper_lower by (simp add: map_of_zip_is_None)
  with None show ?thesis by (simp add: toLowerChar_def)
next
  case (Some l)
  then have "(c, l) \<in> set (zip upperAZ lowerAZ)" by (rule map_of_SomeD)
  then have "l \<in> set lowerAZ" by (rule set_zip_rightD)
  with upper_lower_disjoint have "l \<notin> set upperAZ" by blast
  with Some show ?thesis by (simp add: toLowerChar_def)
qed

lemma toLowerChar_fixed: "c \<notin> set upperAZ \<Longrightarrow> toLowerChar c = c"
  using length_upper_lower by (simp add: toLowerChar_def map_of_zip_is_None [THEN iffD2])

lemma toLowerCase_idem: "toLowerCase (toLowerCase s) = toLowerCase s"
  by (simp add: toLowerCase_def toLowerChar_fixed toLowerChar_not_upper)

lemma toLowerCase_no_upper: "set (toLowerCase s) \<inter> set upperAZ = {}"
  by (auto simp: toLowerCase_def toLowerChar_not_upper)

lemma trim_idem: "trim (trim s) = trim s"
proof -
  let ?P = isWhiteSpace
  let ?a = "dropWhile ?P s"
  let ?b = "dropWhile ?P (rev ?a)"
  have t: "trim s = rev ?b" by (simp add: trim_def)
  have front: "dropWhile ?P (rev ?b) = rev ?b"
  proof (cases "?b = []")
    case True
    show ?thesis by (simp only: True rev.simps dropWhile.simps)
  next
    case False
    have "rev ?a = takeWhile ?P (rev ?a) @ ?b" by simp
    then have "?a = rev ?b @ rev (takeWhile ?P (rev ?a))"
      by (metis rev_append rev_rev_ident)
    with False have "hd (rev ?b) = hd ?a" and "?a \<noteq> []"
      by (metis hd_append2 rev_is_Nil_conv, metis Nil_is_append_conv rev_is_Nil_conv)
    moreover from \<open>?a \<noteq> []\<close> have "\<not> ?P (hd ?a)" by (rule hd_dropWhile)
    ultimately have "\<not> ?P (hd (rev ?b))" by simp
    with False show ?thesis
      by (cases "rev ?b") simp_all
  qed
  have "trim (rev ?b) = rev (dropWhile ?P (rev (dropWhile ?P (rev ?b))))"
    by (simp add: trim_def)
  also have "\<dots> = rev (dropWhile ?P ?b)" by (simp only: front rev_rev_ident)
  also have "\<dots> = rev ?b" by simp
  finally show ?thesis by (simp only: t)
qed

lemma isWhiteSpace_not_letter: "c \<in> set upperAZ \<union> set lowerAZ \<Longrightarrow> \<not> isWhiteSpace c"
  by (auto simp: upperAZ_def lowerAZ_def isWhiteSpace_def)

lemma isWhiteSpace_toLowerChar: "isWhiteSpace (toLowerChar c) = isWhiteSpace c"
proof (cases "map_of (zip upperAZ lowerAZ) c")
  case None
  then show ?thesis by (simp add: toLowerChar_def)
next
  case (Some l)
  then have m: "(c, l) \<in> set (zip upperAZ lowerAZ)" by (rule map_of_SomeD)
  then have "l \<in> set lowerAZ" "c \<in> set upperAZ"
    by (rule set_zip_rightD, rule set_zip_leftD)
  then have "\<not> isWhiteSpace l" "\<not> isWhiteSpace c"
    by (simp_all add: isWhiteSpace_not_letter)
  with Some show ?thesis by (simp add: toLowerChar_def)
qed

lemma trim_toLowerCase: "trim (toLowerCase s) = toLowerCase (trim s)"
proof -
  have comp: "isWhiteSpace \<circ> toLowerChar = isWhiteSpace"
    by (rule ext) (simp add: isWhiteSpace_toLowerChar)
  show ?thesis
    by (simp add: trim_def toLowerCase_def dropWhile_map rev_map comp)
qed

lemma analyzeImageSemantics_Threw:
  "tagModel env (length (tagRequests w)) (arrayAt (splitOn CHR '','' img) 1) = Threw \<Longrightarrow>
     fst (analyzeImageSemantics env w img) = []"
  by (simp add: analyzeImageSemantics_def Let_def)

lemma analyzeImageSemantics_Returned:
  "tagModel env (length (tagRequests w)) (arrayAt (splitOn CHR '','' img) 1) = Returned reply \<Longrightarrow>
     fst (analyzeImageSemantics env w img) =
       map (\<lambda>t. toLowerCase (trim t)) (splitOn CHR '','' (replyText reply))"
  by (simp add: analyzeImageSemantics_def Let_def replyText_def)

lemma analyzeImageSemantics_elements:
  assumes "t \<in> set (fst (analyzeImageSemantics env w img))"
  shows "toLowerCase t = t \<and> set t \<inter> set upperAZ = {} \<and> trim t = t"
proof (cases "tagModel env (length (tagRequests w)) (arrayAt (splitOn CHR '','' img) 1)")
  case Threw
  with assms show ?thesis by (simp add: analyzeImageSemantics_Threw)
next
  case (Returned reply)
  with assms obtain p where t: "t = toLowerCase (trim p)"
    by (auto simp: analyzeImageSemantics_Returned)
  have "trim t = t"
    by (simp add: t trim_toLowerCase trim_idem)
  then show ?thesis
    by (simp add: t toLowerCase_idem toLowerCase_no_upper)
qed

text \<open>
  Claim C8, as the code has it. When the request throws, the result is the empty list.
  When it returns, the result holds the pieces of the reply between the commas, each
  trimmed and lower-cased: one more than the reply has commas. Every string of the
  result is lower-case (it has no letter \<open>A\<close> to \<open>Z\<close>) and trimmed.
\<close>

theorem analyzeImageSemantics_result:
  "(tagModel env (length (tagRequests w)) (arrayAt (splitOn CHR '','' base64Image) 1) = Threw \<longrightarrow>
      fst (analyzeImageSemantics env w base64Image) = [])
   \<and> (tagModel env (length (tagRequests w)) (arrayAt (splitOn CHR '','' base64Image) 1)
        = Returned reply \<longrightarrow>
      fst (analyzeImageSemantics env w base64Image)
        = map (\<lambda>t. toLowerCase (trim t)) (splitOn CHR '','' (replyText reply))
      \<and> length (fst (analyzeImageSemantics env w base64Image))
          = 1 + count_list (replyText reply) CHR '','')
   \<and> (\<forall>t \<in> set (fst (analyzeImageSemantics env w base64Image)).
        toLowerCase t = t \<and> set t \<inter> set upperAZ = {} \<and> trim t = t)"
  by (auto simp: analyzeImageSemantics_Threw analyzeImageSemantics_Returned length_splitOn
      dest: analyzeImageSemantics_elements)

lemma splitOn_example:
  "splitOn CHR '','' ''Dog, Tree ,cat,sky,grass,Park'' =
     [''Dog'', '' Tree '', ''cat'', ''sky'', ''grass'', ''Park'']"
  by simp

lemma analyzeImageSemantics_example:
  "fst (analyzeImageSemantics exampleEnv initialWorld ''data:image/jpeg;base64,AAAA'') =
     [''dog'', ''tree'', ''cat'', ''sky'', ''grass'', ''park'']"
proof -
  have "fst (analyzeImageSemantics exampleEnv initialWorld ''data:image/jpeg;base64,AAAA'') =
      map (\<lambda>t. toLowerCase (trim t)) (splitOn CHR '','' ''Dog, Tree ,cat,sky,grass,Park'')"
    by (simp add: analyzeImageSemantics_def Let_def exampleEnv_def replyText_def del: splitOn.simps)
  then show ?thesis
    by (simp only: splitOn_example)
       (simp add: trim_def isWhiteSpace_def toLowerCase_def toLowerChar_def upperAZ_def lowerAZ_def)
qed

text \<open>
  Claim C8 as stated fails on the number of keywords: a reply with six keywords gives six.
\<close>

theorem more_than_5_tags_counterexample:
  "tagModel exampleEnv 0 (Some ''AAAA'') = Returned (Some ''Dog, Tree ,cat,sky,grass,Park'')
   \<and> fst (analyzeImageSemantics exampleEnv initialWorld ''data:image/jpeg;base64,AAAA'') =
       [''dog'', ''tree'', ''cat'', ''sky'', ''grass'', ''park'']
   \<and> \<not> length (fst (analyzeImageSemantics exampleEnv initialWorld ''data:image/jpeg;base64,AAAA'')) \<le> 5"
  by (simp add: analyzeImageSemantics_example) (simp add: exampleEnv_def)

theorem analyzeImageSemantics_result_witness:
  "tagModel failingEnv (length (tagRequests initialWorld))
       (arrayAt (splitOn CHR '','' ''data:image/jpeg;base64,AAAA'') 1) = Threw
   \<and> fst (analyzeImageSemantics failingEnv initialWorld ''data:image/jpeg;base64,AAAA'') = []
   \<and> tagModel exampleEnv (length (tagRequests initialWorld))
       (arrayAt (splitOn CHR '','' ''data:image/jpeg;base64,AAAA'') 1)
       = Returned (Some ''Dog, Tree ,cat,sky,grass,Park'')
   \<and> length (fst (analyzeImageSemantics exampleEnv initialWorld ''data:image/jpeg;base64,AAAA'')) = 6
   \<and> ''park'' \<in> set (fst (analyzeImageSemantics exampleEnv initialWorld ''data:image/jpeg;base64,AAAA''))
   \<and> toLowerCase ''park'' = ''park'' \<and> trim ''park'' = ''park''"
proof -
  let ?img = "''data:image/jpeg;base64,AAAA''"
  have f: "tagModel failingEnv (length (tagRequests initialWorld))
       (arrayAt (splitOn CHR '','' ?img) 1) = Threw"
    by (simp add: failingEnv_def del: splitOn.simps)
  have e: "tagModel exampleEnv (length (tagRequests initialWorld))
       (arrayAt (splitOn CHR '','' ?img) 1) = Returned (Some ''Dog, Tree ,cat,sky,grass,Park'')"
    by (simp add: exampleEnv_def del: splitOn.simps)
  have m: "''park'' \<in> set (fst (analyzeImageSemantics exampleEnv initialWorld ?img))"
    by (simp add: analyzeImageSemantics_example)
  from analyzeImageSemantics_result [of failingEnv initialWorld ?img] f
  have r1: "fst (analyzeImageSemantics failingEnv initialWorld ?img) = []"
    by blast
  from analyzeImageSemantics_result [of exampleEnv initialWorld ?img] e
  have "length (fst (analyzeImageSemantics exampleEnv initialWorld ?img))
      = 1 + count_list (replyText (Some ''Dog, Tree ,cat,sky,grass,Park'')) CHR '',''"
    by blast
  then have r2: "length (fst (analyzeImageSemantics exampleEnv initialWorld ?img)) = 6"
    by (simp add: replyText_def)
  from analyzeImageSemantics_result [of exampleEnv initialWorld ?img] m
  have r3: "toLowerCase ''park'' = ''park'' \<and> trim ''park'' = ''park''"
    by blast
  from f e m r1 r2 r3 show ?thesis by blast
qed

section \<open>Tagging by position in the indexing run\<close>














end
